theory Spec2Isabelle
  imports Main
begin

section \<open>JavaScript values and the JSON built-ins\<close>

text \<open>
  The sink (\<^verbatim>\<open>src/index.js\<close>) keeps eight properties of every captured mail as JSON
  text: \<^verbatim>\<open>JSON.stringify\<close> on insert (lines 81 to 88), \<^verbatim>\<open>JSON.parse\<close> on read
  (\<^verbatim>\<open>deserialize\<close>, lines 110 to 121). The values are JavaScript values. A number is
  modelled by its integer value or one of the three non-finite numbers (no property of a
  mail holds a fraction); a string is a list of characters; an object is the list of its
  own properties in enumeration order.
\<close>

datatype jsnum = Finite int | NaN | PosInfinity | NegInfinity

datatype jsval =
    JUndefined
  | JNull
  | JBoolean bool
  | JNumber jsnum
  | JString string
  | JArray "jsval list"
  | JObject "(string \<times> jsval) list"

datatype error =
    SyntaxError
  | TypeError
  | TableAlreadyExists
  | SqliteFull
  | DatabaseFault string

subsection \<open>Number to text\<close>

definition digit_char :: "nat \<Rightarrow> char" where
  "digit_char d = char_of (48 + d)"

fun digits :: "nat \<Rightarrow> string" where
  "digits n = (if n < 10 then [digit_char n] else digits (n div 10) @ [digit_char (n mod 10)])"

declare digits.simps [simp del]

definition Number_toString :: "int \<Rightarrow> string" where
  "Number_toString i = (if i < 0 then CHR ''-'' # digits (nat (- i)) else digits (nat i))"

subsection \<open>JSON.stringify\<close>

text \<open>
  \<^verbatim>\<open>QuoteJSONString\<close> of the language standard: the two-character escapes, \<^verbatim>\<open>\u00xx\<close> for
  the other control characters, every other character as it is.
\<close>

definition hex_digit :: "nat \<Rightarrow> char" where
  "hex_digit d = (if d < 10 then char_of (48 + d) else char_of (87 + d))"

definition quote_char :: "char \<Rightarrow> string" where
  "quote_char c =
     (if c = CHR 0x08 then [CHR 0x5C, CHR ''b'']
      else if c = CHR 0x09 then [CHR 0x5C, CHR ''t'']
      else if c = CHR 0x0A then [CHR 0x5C, CHR ''n'']
      else if c = CHR 0x0C then [CHR 0x5C, CHR ''f'']
      else if c = CHR 0x0D then [CHR 0x5C, CHR ''r'']
      else if c = CHR 0x22 then [CHR 0x5C, CHR 0x22]
      else if c = CHR 0x5C then [CHR 0x5C, CHR 0x5C]
      else if (of_char c :: nat) < 32
        then [CHR 0x5C, CHR ''u'', CHR ''0'', CHR ''0'',
              hex_digit (of_char c div 16), hex_digit (of_char c mod 16)]
      else [c])"

definition QuoteJSONString :: "string \<Rightarrow> string" where
  "QuoteJSONString s = CHR 0x22 # concat (map quote_char s) @ [CHR 0x22]"

fun join :: "string \<Rightarrow> string list \<Rightarrow> string" where
  "join sep [] = []"
| "join sep [x] = x"
| "join sep (x # y # ys) = x @ sep @ join sep (y # ys)"

text \<open>
  \<^verbatim>\<open>SerializeJSONProperty\<close>, \<^verbatim>\<open>SerializeJSONArray\<close> and \<^verbatim>\<open>SerializeJSONObject\<close> of the
  standard, without replacer and indentation. The result \<open>None\<close> is JavaScript's
  \<^verbatim>\<open>undefined\<close>: \<^verbatim>\<open>JSON.stringify(undefined)\<close> is not a text. An array writes
  \<^verbatim>\<open>null\<close> for such an element, an object leaves the property out, and a number that
  is not finite is written \<^verbatim>\<open>null\<close>.
\<close>

fun SerializeJSONProperty :: "jsval \<Rightarrow> string option"
  and SerializeJSONArray :: "jsval list \<Rightarrow> string list"
  and SerializeJSONObject :: "(string \<times> jsval) list \<Rightarrow> string list"
where
  "SerializeJSONProperty JUndefined = None"
| "SerializeJSONProperty JNull = Some ''null''"
| "SerializeJSONProperty (JBoolean b) = Some (if b then ''true'' else ''false'')"
| "SerializeJSONProperty (JNumber n) =
     Some (case n of Finite i \<Rightarrow> Number_toString i | _ \<Rightarrow> ''null'')"
| "SerializeJSONProperty (JString s) = Some (QuoteJSONString s)"
| "SerializeJSONProperty (JArray xs) = Some (''['' @ join '','' (SerializeJSONArray xs) @ '']'')"
| "SerializeJSONProperty (JObject kvs) = Some (''{'' @ join '','' (SerializeJSONObject kvs) @ ''}'')"
| "SerializeJSONArray [] = []"
| "SerializeJSONArray (x # xs) =
     (case SerializeJSONProperty x of None \<Rightarrow> ''null'' | Some t \<Rightarrow> t) # SerializeJSONArray xs"
| "SerializeJSONObject [] = []"
| "SerializeJSONObject ((k, v) # kvs) =
     (case SerializeJSONProperty v of
        None \<Rightarrow> SerializeJSONObject kvs
      | Some t \<Rightarrow> (QuoteJSONString k @ '':'' @ t) # SerializeJSONObject kvs)"

definition JSON_stringify :: "jsval \<Rightarrow> string option" where
  "JSON_stringify v = SerializeJSONProperty v"

subsection \<open>JSON.parse\<close>

text \<open>
  A recursive-descent reader of the JSON grammar: white space between tokens, the
  literals, strings with their escapes, integer numbers, arrays and objects. Two
  limits of the value model show here: a number with a fraction or an exponent and a
  \<^verbatim>\<open>\u\<close> escape above \<^verbatim>\<open>00ff\<close> name values the model does not have, and the reader
  refuses them; \<^verbatim>\<open>JSON.stringify\<close> above writes neither. \<^verbatim>\<open>-0\<close> is read as 0.
\<close>

definition is_ws :: "char \<Rightarrow> bool" where
  "is_ws c = (c = CHR 0x20 \<or> c = CHR 0x09 \<or> c = CHR 0x0A \<or> c = CHR 0x0D)"

definition skip_ws :: "string \<Rightarrow> string" where
  "skip_ws s = dropWhile is_ws s"

definition is_digit :: "char \<Rightarrow> bool" where
  "is_digit c = (48 \<le> (of_char c :: nat) \<and> (of_char c :: nat) \<le> 57)"

definition digit_val :: "char \<Rightarrow> nat" where
  "digit_val c = of_char c - 48"

definition nat_of_digits :: "string \<Rightarrow> nat" where
  "nat_of_digits ds = foldl (\<lambda>a c. 10 * a + digit_val c) 0 ds"

definition parse_number :: "string \<Rightarrow> (jsval \<times> string) option" where
  "parse_number s =
     (let neg = (s \<noteq> [] \<and> hd s = CHR ''-'');
          s1 = (if neg then tl s else s);
          ds = takeWhile is_digit s1;
          r = dropWhile is_digit s1
      in if ds = [] then None
         else if hd ds = CHR ''0'' \<and> 1 < length ds then None
         else if r \<noteq> [] \<and> (hd r = CHR ''.'' \<or> hd r = CHR ''e'' \<or> hd r = CHR ''E'') then None
         else Some (JNumber (Finite (if neg then - int (nat_of_digits ds)
                                     else int (nat_of_digits ds))), r))"

definition hex_val :: "char \<Rightarrow> nat option" where
  "hex_val c =
     (let n = (of_char c :: nat) in
      if 48 \<le> n \<and> n \<le> 57 then Some (n - 48)
      else if 97 \<le> n \<and> n \<le> 102 then Some (n - 87)
      else if 65 \<le> n \<and> n \<le> 70 then Some (n - 55)
      else None)"

definition simple_escape :: "char \<Rightarrow> char option" where
  "simple_escape e =
     (if e = CHR 0x22 then Some (CHR 0x22)
      else if e = CHR 0x5C then Some (CHR 0x5C)
      else if e = CHR ''/'' then Some (CHR ''/'')
      else if e = CHR ''b'' then Some (CHR 0x08)
      else if e = CHR ''f'' then Some (CHR 0x0C)
      else if e = CHR ''n'' then Some (CHR 0x0A)
      else if e = CHR ''r'' then Some (CHR 0x0D)
      else if e = CHR ''t'' then Some (CHR 0x09)
      else None)"

definition unicode_escape :: "char \<Rightarrow> char \<Rightarrow> char \<Rightarrow> char \<Rightarrow> char option" where
  "unicode_escape h1 h2 h3 h4 =
     (case (hex_val h1, hex_val h2, hex_val h3, hex_val h4) of
        (Some a, Some b, Some c, Some d) \<Rightarrow>
          if a = 0 \<and> b = 0 then Some (char_of (16 * c + d)) else None
      | _ \<Rightarrow> None)"

text \<open>The characters of a string after its opening quote, up to the closing one.\<close>

fun parse_string_chars :: "string \<Rightarrow> (string \<times> string) option" where
  "parse_string_chars [] = None"
| "parse_string_chars (c # r) =
     (if c = CHR 0x22 then Some ([], r)
      else if c = CHR 0x5C then
        (case r of
           [] \<Rightarrow> None
         | e # r1 \<Rightarrow>
             if e = CHR ''u'' then
               (case r1 of
                  h1 # h2 # h3 # h4 # r2 \<Rightarrow>
                    (case unicode_escape h1 h2 h3 h4 of
                       None \<Rightarrow> None
                     | Some ch \<Rightarrow>
                         (case parse_string_chars r2 of
                            None \<Rightarrow> None
                          | Some (s, r3) \<Rightarrow> Some (ch # s, r3)))
                | _ \<Rightarrow> None)
             else
               (case simple_escape e of
                  None \<Rightarrow> None
                | Some ch \<Rightarrow>
                    (case parse_string_chars r1 of
                       None \<Rightarrow> None
                     | Some (s, r3) \<Rightarrow> Some (ch # s, r3))))
      else if (of_char c :: nat) < 32 then None
      else (case parse_string_chars r of
              None \<Rightarrow> None
            | Some (s, r3) \<Rightarrow> Some (c # s, r3)))"

text \<open>
  An object is built property by property, as \<^verbatim>\<open>JSON.parse\<close> does: a key read a second
  time replaces the value at the key's place.
\<close>

fun CreateDataProperty :: "(string \<times> jsval) list \<Rightarrow> string \<Rightarrow> jsval \<Rightarrow> (string \<times> jsval) list" where
  "CreateDataProperty [] k v = [(k, v)]"
| "CreateDataProperty ((k', v') # ps) k v =
     (if k' = k then (k, v) # ps else (k', v') # CreateDataProperty ps k v)"

definition object_of_members :: "(string \<times> jsval) list \<Rightarrow> jsval" where
  "object_of_members ms = JObject (foldl (\<lambda>ps (k, v). CreateDataProperty ps k v) [] ms)"

text \<open>
  The first argument bounds the number of nested calls; \<open>JSON_parse_text\<close> below starts
  it above the length of the text. That is enough for every text \<^verbatim>\<open>JSON.stringify\<close>
  writes (\<open>parse_serialized\<close> below).
\<close>

fun parse_value :: "nat \<Rightarrow> string \<Rightarrow> (jsval \<times> string) option"
  and parse_elements :: "nat \<Rightarrow> string \<Rightarrow> (jsval list \<times> string) option"
  and parse_members :: "nat \<Rightarrow> string \<Rightarrow> ((string \<times> jsval) list \<times> string) option"
where
  "parse_value 0 s = None"
| "parse_value (Suc n) [] = None"
| "parse_value (Suc n) (c # r) =
     (if c = CHR ''n'' then (if take 3 r = ''ull'' then Some (JNull, drop 3 r) else None)
      else if c = CHR ''t'' then (if take 3 r = ''rue'' then Some (JBoolean True, drop 3 r) else None)
      else if c = CHR ''f'' then (if take 4 r = ''alse'' then Some (JBoolean False, drop 4 r) else None)
      else if c = CHR 0x22 then
        (case parse_string_chars r of
           None \<Rightarrow> None
         | Some (s, r1) \<Rightarrow> Some (JString s, r1))
      else if c = CHR ''['' then
        (if skip_ws r \<noteq> [] \<and> hd (skip_ws r) = CHR '']'' then Some (JArray [], tl (skip_ws r))
         else (case parse_elements n (skip_ws r) of
                 None \<Rightarrow> None
               | Some (xs, r1) \<Rightarrow> Some (JArray xs, r1)))
      else if c = CHR ''{'' then
        (if skip_ws r \<noteq> [] \<and> hd (skip_ws r) = CHR ''}'' then Some (JObject [], tl (skip_ws r))
         else (case parse_members n (skip_ws r) of
                 None \<Rightarrow> None
               | Some (ms, r1) \<Rightarrow> Some (object_of_members ms, r1)))
      else if c = CHR ''-'' \<or> is_digit c then parse_number (c # r)
      else None)"
| "parse_elements 0 s = None"
| "parse_elements (Suc n) s =
     (case parse_value n s of
        None \<Rightarrow> None
      | Some (x, r) \<Rightarrow>
          (case skip_ws r of
             [] \<Rightarrow> None
           | c # r1 \<Rightarrow>
               if c = CHR '']'' then Some ([x], r1)
               else if c = CHR '','' then
                 (case parse_elements n (skip_ws r1) of
                    None \<Rightarrow> None
                  | Some (xs, r2) \<Rightarrow> Some (x # xs, r2))
               else None))"
| "parse_members 0 s = None"
| "parse_members (Suc n) [] = None"
| "parse_members (Suc n) (q # s) =
     (if q \<noteq> CHR 0x22 then None
      else
        (case parse_string_chars s of
           None \<Rightarrow> None
         | Some (k, r) \<Rightarrow>
             (case skip_ws r of
                [] \<Rightarrow> None
              | c # r1 \<Rightarrow>
                  if c \<noteq> CHR '':'' then None
                  else
                    (case parse_value n (skip_ws r1) of
                       None \<Rightarrow> None
                     | Some (v, r2) \<Rightarrow>
                         (case skip_ws r2 of
                            [] \<Rightarrow> None
                          | d # r3 \<Rightarrow>
                              if d = CHR ''}'' then Some ([(k, v)], r3)
                              else if d = CHR '','' then
                                (case parse_members n (skip_ws r3) of
                                   None \<Rightarrow> None
                                 | Some (ms, r4) \<Rightarrow> Some ((k, v) # ms, r4))
                              else None)))))"

definition JSON_parse_text :: "string \<Rightarrow> error + jsval" where
  "JSON_parse_text t =
     (case parse_value (Suc (length t)) (skip_ws t) of
        None \<Rightarrow> Inl SyntaxError
      | Some (v, r) \<Rightarrow> if skip_ws r = [] then Inr v else Inl SyntaxError)"

text \<open>
  \<^verbatim>\<open>JSON.parse\<close> converts its argument to a string first (\<^verbatim>\<open>ToString\<close>): \<^verbatim>\<open>null\<close>
  becomes the text \<^verbatim>\<open>null\<close>, an array the texts of its elements joined by commas with
  nothing for \<^verbatim>\<open>null\<close> and \<^verbatim>\<open>undefined\<close>, an object \<^verbatim>\<open>[object Object]\<close>.
\<close>

fun ToString :: "jsval \<Rightarrow> string" where
  "ToString JUndefined = ''undefined''"
| "ToString JNull = ''null''"
| "ToString (JBoolean b) = (if b then ''true'' else ''false'')"
| "ToString (JNumber n) =
     (case n of Finite i \<Rightarrow> Number_toString i | NaN \<Rightarrow> ''NaN''
      | PosInfinity \<Rightarrow> ''Infinity'' | NegInfinity \<Rightarrow> ''-Infinity'')"
| "ToString (JString s) = s"
| "ToString (JArray xs) =
     join '','' (map (\<lambda>x. if x = JUndefined \<or> x = JNull then [] else ToString x) xs)"
| "ToString (JObject kvs) = ''[object Object]''"

definition JSON_parse :: "jsval \<Rightarrow> error + jsval" where
  "JSON_parse v = JSON_parse_text (ToString v)"

section \<open>The emails table\<close>

text \<open>
  \<^verbatim>\<open>createSchema\<close> (lines 53 to 58) makes the table \<^verbatim>\<open>emails\<close>: an auto-incrementing integer
  primary key, two timestamps and eight JSON columns. A JSON column holds NULL or the
  text it was given. (SQLite keeps a text that is a number as that number and hands it
  back as a number, which \<^verbatim>\<open>JSON.parse\<close> turns into the same text again; the model keeps
  the text.) \<^verbatim>\<open>new Date()\<close> is stored as its count of milliseconds.
\<close>

type_synonym cell = "string option"

record insert_values =
  created_at_col :: int
  updated_at_col :: int
  html_col :: cell
  text_col :: cell
  headers_col :: cell
  subject_col :: cell
  messageId_col :: cell
  priority_col :: cell
  from_col :: cell
  to_col :: cell

record row = insert_values +
  id_col :: int

definition with_id :: "int \<Rightarrow> insert_values \<Rightarrow> row" where
  "with_id n v = insert_values.extend v (row.fields n)"

text \<open>
  The table: its rows in rowid order, which is the order of a \<^verbatim>\<open>select\<close> without
  \<^verbatim>\<open>order by\<close>, and the counter SQLite keeps for an \<^verbatim>\<open>autoincrement\<close> key (the
  largest rowid the table has ever held).
\<close>

record store =
  rows :: "row list"
  seq :: int

definition empty_store :: store where
  "empty_store = \<lparr>rows = [], seq = 0\<rparr>"

fun max_rowid :: "row list \<Rightarrow> int" where
  "max_rowid [] = 0"
| "max_rowid (r # rs) = max (id_col r) (max_rowid rs)"

text \<open>
  \<^verbatim>\<open>self.db('emails').insert({...})\<close> (line 78). The key is one more than the largest
  rowid that has ever been in the table; when that is the largest 64-bit integer the
  insert fails. knex resolves to the list holding the new key.
\<close>

definition db_insert :: "insert_values \<Rightarrow> store \<Rightarrow> error + (int \<times> store)" where
  "db_insert v st =
     (let m = max (seq st) (max_rowid (rows st)) in
      if 9223372036854775807 \<le> m then Inl SqliteFull
      else Inr (m + 1, \<lparr>rows = rows st @ [with_id (m + 1) v], seq = m + 1\<rparr>))"

definition db_select_all :: "store \<Rightarrow> row list" where
  "db_select_all st = rows st"

definition db_where_eq :: "int \<Rightarrow> store \<Rightarrow> row list" where
  "db_where_eq k st = filter (\<lambda>r. id_col r = k) (rows st)"

definition db_where_le :: "int \<Rightarrow> store \<Rightarrow> row list" where
  "db_where_le k st = filter (\<lambda>r. id_col r \<le> k) (rows st)"

definition db_del_eq :: "int \<Rightarrow> store \<Rightarrow> store" where
  "db_del_eq k st = st\<lparr>rows := filter (\<lambda>r. \<not> id_col r = k) (rows st)\<rparr>"

definition db_del_le :: "int \<Rightarrow> store \<Rightarrow> store" where
  "db_del_le k st = st\<lparr>rows := filter (\<lambda>r. \<not> id_col r \<le> k) (rows st)\<rparr>"

section \<open>Row objects, the decoded mail and the insert of line 78\<close>

text \<open>
  A row as the driver hands it to JavaScript, and the same object after
  \<^verbatim>\<open>deserialize\<close> has replaced its eight properties: NULL arrives as \<^verbatim>\<open>null\<close>, a text
  as a string.
\<close>

record email =
  id_prop :: int
  created_at_prop :: int
  updated_at_prop :: int
  html_prop :: jsval
  text_prop :: jsval
  headers_prop :: jsval
  subject_prop :: jsval
  messageId_prop :: jsval
  priority_prop :: jsval
  from_prop :: jsval
  to_prop :: jsval

definition column_value :: "cell \<Rightarrow> jsval" where
  "column_value c = (case c of None \<Rightarrow> JNull | Some t \<Rightarrow> JString t)"

definition row_object :: "row \<Rightarrow> email" where
  "row_object r =
     \<lparr>id_prop = id_col r, created_at_prop = created_at_col r, updated_at_prop = updated_at_col r,
      html_prop = column_value (html_col r), text_prop = column_value (text_col r),
      headers_prop = column_value (headers_col r), subject_prop = column_value (subject_col r),
      messageId_prop = column_value (messageId_col r), priority_prop = column_value (priority_col r),
      from_prop = column_value (from_col r), to_prop = column_value (to_col r)\<rparr>"

text \<open>
  The object of the mail parser's \<^verbatim>\<open>end\<close> event and the connection of the SMTP
  server; a property the parser did not set is \<^verbatim>\<open>undefined\<close>.
\<close>

record mail_object =
  mail_html :: jsval
  mail_text :: jsval
  mail_headers :: jsval
  mail_subject :: jsval
  mail_messageId :: jsval
  mail_priority :: jsval

record connection =
  conn_from :: jsval
  conn_to :: jsval

text \<open>
  The object given to \<^verbatim>\<open>insert\<close> (lines 78 to 89); \<open>t1\<close> and \<open>t2\<close> are the two readings
  of the clock. The database is opened with \<^verbatim>\<open>useNullAsDefault: true\<close> (line 46), so a
  value that is \<^verbatim>\<open>undefined\<close>, here \<open>None\<close>, is stored as NULL.
\<close>

definition email_values :: "mail_object \<Rightarrow> connection \<Rightarrow> int \<Rightarrow> int \<Rightarrow> insert_values" where
  "email_values mail conn t1 t2 =
     \<lparr>created_at_col = t1, updated_at_col = t2,
      html_col = JSON_stringify (mail_html mail),
      text_col = JSON_stringify (mail_text mail),
      headers_col = JSON_stringify (mail_headers mail),
      subject_col = JSON_stringify (mail_subject mail),
      messageId_col = JSON_stringify (mail_messageId mail),
      priority_col = JSON_stringify (mail_priority mail),
      from_col = JSON_stringify (conn_from conn),
      to_col = JSON_stringify (conn_to conn)\<rparr>"

definition and_then :: "error + 'a \<Rightarrow> ('a \<Rightarrow> error + 'b) \<Rightarrow> error + 'b" where
  "and_then r f = (case r of Inl e \<Rightarrow> Inl e | Inr x \<Rightarrow> f x)"

text \<open>\<^verbatim>\<open>deserialize\<close> (lines 110 to 121): eight assignments, the first that throws ends it.\<close>

definition deserialize :: "email \<Rightarrow> error + email" where
  "deserialize ob =
     and_then (JSON_parse (html_prop ob)) (\<lambda>h.
     and_then (JSON_parse (text_prop ob)) (\<lambda>t.
     and_then (JSON_parse (headers_prop ob)) (\<lambda>hs.
     and_then (JSON_parse (subject_prop ob)) (\<lambda>s.
     and_then (JSON_parse (messageId_prop ob)) (\<lambda>m.
     and_then (JSON_parse (priority_prop ob)) (\<lambda>p.
     and_then (JSON_parse (from_prop ob)) (\<lambda>f.
     and_then (JSON_parse (to_prop ob)) (\<lambda>tos.
       Inr (ob\<lparr>html_prop := h, text_prop := t, headers_prop := hs, subject_prop := s,
                messageId_prop := m, priority_prop := p, from_prop := f, to_prop := tos\<rparr>)))))))))"

text \<open>\<^verbatim>\<open>resp.forEach(self.deserialize)\<close> (lines 150 and 170).\<close>

fun forEach_deserialize :: "email list \<Rightarrow> error + email list" where
  "forEach_deserialize [] = Inr []"
| "forEach_deserialize (ob # obs) =
     and_then (deserialize ob) (\<lambda>d.
     and_then (forEach_deserialize obs) (\<lambda>ds. Inr (d # ds)))"

section \<open>The event emitter\<close>

text \<open>
  The listeners of the event \<^verbatim>\<open>email\<close>, in the order of their registration. A listener
  is the closure a request to \<^verbatim>\<open>/\<close> creates (line 156), named here by a number.
  \<^verbatim>\<open>removeListener\<close> takes out the instance registered last; \<^verbatim>\<open>emit\<close> calls every
  listener, in order, before it returns.
\<close>

type_synonym listener = nat

definition on_email :: "listener \<Rightarrow> listener list \<Rightarrow> listener list" where
  "on_email l ls = ls @ [l]"

definition removeListener :: "listener \<Rightarrow> listener list \<Rightarrow> listener list" where
  "removeListener l ls = rev (remove1 l (rev ls))"

definition emit_email :: "email \<Rightarrow> listener list \<Rightarrow> (listener \<times> email) list" where
  "emit_email item ls = map (\<lambda>l. (l, item)) ls"



section \<open>The SMTP side: the handler of the parser's end event\<close>

record sink =
  db :: store
  listeners :: "listener list"

text \<open>
  The handler (lines 77 to 97) waits twice, for the insert and for the select. What
  other sessions and requests do to the table and to the listeners meanwhile:
\<close>

datatype interference =
    OtherInsert insert_values
  | OtherDelete int
  | OtherPurge int
  | OtherOn listener
  | OtherRemoveListener listener

fun interfere :: "interference \<Rightarrow> sink \<Rightarrow> sink" where
  "interfere (OtherInsert v) s =
     (case db_insert v (db s) of Inl e \<Rightarrow> s | Inr (n, st) \<Rightarrow> s\<lparr>db := st\<rparr>)"
| "interfere (OtherDelete k) s = s\<lparr>db := db_del_eq k (db s)\<rparr>"
| "interfere (OtherPurge k) s = s\<lparr>db := db_del_le k (db s)\<rparr>"
| "interfere (OtherOn l) s = s\<lparr>listeners := on_email l (listeners s)\<rparr>"
| "interfere (OtherRemoveListener l) s = s\<lparr>listeners := removeListener l (listeners s)\<rparr>"

text \<open>What the handler does that others can see, in the order it does it.\<close>

datatype effect =
    InsertResolved int
  | SelectResolved "row list"
  | Emitted email
  | ListenerCalled listener email
  | DoneCallback "int list"
  | Rejected error

text \<open>
  \<open>on_end mail conn t1 t2 during_select before_emit s\<close>: the insert runs on \<open>s\<close>;
  \<open>during_select\<close> happens between the insert and the select of line 91,
  \<open>before_emit\<close> between the select and the resumption at line 95. A failed insert
  rejects the handler at line 78. \<^verbatim>\<open>mail[0]\<close> of an empty result is \<^verbatim>\<open>undefined\<close>, and
  \<^verbatim>\<open>deserialize\<close> throws a \<^verbatim>\<open>TypeError\<close> on it. Lines 95 and 96 run without a pause:
  \<^verbatim>\<open>emit\<close>, which calls the listeners, then \<^verbatim>\<open>donecallback(null, record)\<close>.
\<close>

definition on_end ::
  "mail_object \<Rightarrow> connection \<Rightarrow> int \<Rightarrow> int \<Rightarrow> interference list \<Rightarrow> interference list \<Rightarrow> sink
    \<Rightarrow> effect list \<times> sink" where
  "on_end mail conn t1 t2 during_select before_emit s =
     (case db_insert (email_values mail conn t1 t2) (db s) of
        Inl e \<Rightarrow> ([Rejected e], s)
      | Inr (new_id, st) \<Rightarrow>
          (let s1 = fold interfere during_select (s\<lparr>db := st\<rparr>);
               found = db_where_eq new_id (db s1);
               s2 = fold interfere before_emit s1
           in case found of
                [] \<Rightarrow> ([InsertResolved new_id, SelectResolved found, Rejected TypeError], s2)
              | r # rest \<Rightarrow>
                  (case deserialize (row_object r) of
                     Inl e \<Rightarrow> ([InsertResolved new_id, SelectResolved found, Rejected e], s2)
                   | Inr item \<Rightarrow>
                       ([InsertResolved new_id, SelectResolved found, Emitted item]
                          @ map (\<lambda>(l, x). ListenerCalled l x) (emit_email item (listeners s2))
                          @ [DoneCallback [new_id]], s2))))"

section \<open>The HTTP side\<close>

datatype body = Text string | JsonArray "email list" | JsonObject email

datatype response = Response nat body

text \<open>
  A handler that throws is \<open>Inl\<close>: \<^verbatim>\<open>asyncHandler\<close> passes the error on. The route
  parameter \<^verbatim>\<open>:id\<close> is taken to be the decimal text of an integer \<open>k\<close>.
\<close>

text \<open>\<^verbatim>\<open>GET /api/email\<close> (lines 168 to 172).\<close>

definition api_email :: "store \<Rightarrow> error + response" where
  "api_email st =
     and_then (forEach_deserialize (map row_object (db_select_all st)))
       (\<lambda>resp. Inr (Response 200 (JsonArray resp)))"

text \<open>
  \<^verbatim>\<open>GET /api/email/stream\<close> (lines 175 to 185): the rows of the query go through
  \<^verbatim>\<open>JSONStream.stringify('[', ',', ']')\<close>, which writes one piece per row, the row
  after the opening bracket or a comma, and the closing bracket at the end.
\<close>

datatype chunk = Item string email | Piece string

definition JSONStream_stringify :: "string \<Rightarrow> string \<Rightarrow> string \<Rightarrow> email list \<Rightarrow> chunk list" where
  "JSONStream_stringify opn sep cls items =
     (case items of
        [] \<Rightarrow> [Piece opn, Piece cls]
      | x # xs \<Rightarrow> Item opn x # map (Item sep) xs @ [Piece cls])"

definition api_email_stream :: "store \<Rightarrow> chunk list" where
  "api_email_stream st = JSONStream_stringify ''['' '','' '']'' (map row_object (db_select_all st))"

fun streamed :: "chunk list \<Rightarrow> email list" where
  "streamed [] = []"
| "streamed (Item pre x # cs) = x # streamed cs"
| "streamed (Piece p # cs) = streamed cs"

text \<open>\<^verbatim>\<open>GET /api/email/:id\<close> (lines 196 to 203).\<close>

definition api_email_id :: "int \<Rightarrow> store \<Rightarrow> error + response" where
  "api_email_id k st =
     (case db_where_eq k st of
        [] \<Rightarrow> Inr (Response 404 (Text ''Not found''))
      | r # rest \<Rightarrow> and_then (deserialize (row_object r)) (\<lambda>d. Inr (Response 200 (JsonObject d))))"

text \<open>
  \<^verbatim>\<open>GET /api/email/delete/:id\<close> (lines 205 to 213) and \<^verbatim>\<open>GET /api/email/purge/:id\<close>
  (lines 215 to 223): a select, and when it found a row, a delete. The handler waits
  for the select before it sends the delete; \<open>during\<close> is what others do meanwhile.
  With no row found the handler answers at once.
\<close>

definition api_email_delete :: "int \<Rightarrow> interference list \<Rightarrow> sink \<Rightarrow> response \<times> sink" where
  "api_email_delete k during s =
     (let resp = db_where_eq k (db s) in
      if length resp < 1 then (Response 404 (Text ''Not found''), s)
      else (let s1 = fold interfere during s in
            (Response 200 (Text ''Removed''), s1\<lparr>db := db_del_eq k (db s1)\<rparr>)))"

definition api_email_purge :: "int \<Rightarrow> interference list \<Rightarrow> sink \<Rightarrow> response \<times> sink" where
  "api_email_purge k during s =
     (let resp = db_where_le k (db s) in
      if length resp < 1 then (Response 404 (Text ''Not found''), s)
      else (let s1 = fold interfere during s in
            (Response 200 (Text (''Purged records older than '' @ Number_toString k)),
             s1\<lparr>db := db_del_le k (db s1)\<rparr>)))"

text \<open>
  \<^verbatim>\<open>GET /\<close> (lines 130 to 166): the rows there are, decoded, one table line each (the
  HTML is left out), then the request's listener is registered (line 161); when the
  request closes the listener is removed (line 164).
\<close>

definition root_open :: "listener \<Rightarrow> sink \<Rightarrow> error + (email list \<times> sink)" where
  "root_open l s =
     and_then (forEach_deserialize (map row_object (db_select_all (db s))))
       (\<lambda>resp. Inr (resp, s\<lparr>listeners := on_email l (listeners s)\<rparr>))"

definition root_close :: "listener \<Rightarrow> sink \<Rightarrow> sink" where
  "root_close l s = s\<lparr>listeners := removeListener l (listeners s)\<rparr>"

section \<open>Start-up\<close>

text \<open>
  The database file has the table (\<open>Some\<close>) or not. \<open>fault\<close> is a failure of the
  database that has nothing to do with the table (the file cannot be opened, the disk
  is full), \<open>None\<close> when there is none. \<open>message\<close> stands for \<^verbatim>\<open>err.message\<close>; the
  texts are shortened.
\<close>

type_synonym database = "store option"

definition createTable :: "error option \<Rightarrow> database \<Rightarrow> error + database" where
  "createTable fault d =
     (case fault of
        Some e \<Rightarrow> Inl e
      | None \<Rightarrow> (case d of Some st \<Rightarrow> Inl TableAlreadyExists | None \<Rightarrow> Inr (Some empty_store)))"

definition message :: "error \<Rightarrow> string" where
  "message e =
     (case e of
        SyntaxError \<Rightarrow> ''Unexpected token''
      | TypeError \<Rightarrow> ''Cannot read properties of undefined''
      | TableAlreadyExists \<Rightarrow> ''table emails already exists''
      | SqliteFull \<Rightarrow> ''database or disk is full''
      | DatabaseFault m \<Rightarrow> m)"

text \<open>
  \<^verbatim>\<open>createSchema\<close> (lines 41 to 62): \<^verbatim>\<open>try { await createTable } catch (err) {
  self.emit('info', err.message) }\<close>. The result is the database and the \<^verbatim>\<open>info\<close>
  events; \<open>Inl\<close> would be a rejection. Making the knex handle (lines 44 to 50) opens
  no file and is taken not to fail.
\<close>

definition createSchema :: "error option \<Rightarrow> database \<Rightarrow> error + (database \<times> string list)" where
  "createSchema fault d =
     (case createTable fault d of
        Inr d' \<Rightarrow> Inr (d', [])
      | Inl err \<Rightarrow> Inr (d, [message err]))"

text \<open>\<^verbatim>\<open>start\<close> (lines 28 to 39).\<close>

definition start :: "nat \<Rightarrow> nat \<Rightarrow> error option \<Rightarrow> database \<Rightarrow> error + (database \<times> string list)" where
  "start smtpport httpport fault d =
     and_then (createSchema fault d) (\<lambda>(d', infos).
       Inr (d', infos @ [''SMTP server listening on port '' @ digits smtpport,
                          ''HTTP server listening on port '' @ digits httpport]))"

section \<open>Histories of the table\<close>

text \<open>
  Whatever sessions and requests are under way, the table sees one write after the
  other: the insert of line 78, the delete of line 210, the delete of line 220.
\<close>

datatype store_op =
    InsertMail mail_object connection int int
  | DeleteWhereEq int
  | DeleteWhereLe int

fun apply_store_op :: "store_op \<Rightarrow> store \<Rightarrow> store" where
  "apply_store_op (InsertMail mail conn t1 t2) st =
     (case db_insert (email_values mail conn t1 t2) st of Inl e \<Rightarrow> st | Inr (n, st') \<Rightarrow> st')"
| "apply_store_op (DeleteWhereEq k) st = db_del_eq k st"
| "apply_store_op (DeleteWhereLe k) st = db_del_le k st"

definition history :: "store_op list \<Rightarrow> store" where
  "history ops = fold apply_store_op ops empty_store"

text \<open>The keys the inserts of a history return, in order.\<close>

fun assigned_ids :: "store_op list \<Rightarrow> store \<Rightarrow> int list" where
  "assigned_ids [] st = []"
| "assigned_ids (InsertMail mail conn t1 t2 # ops) st =
     (case db_insert (email_values mail conn t1 t2) st of
        Inl e \<Rightarrow> assigned_ids ops st
      | Inr (n, st') \<Rightarrow> n # assigned_ids ops st')"
| "assigned_ids (DeleteWhereEq k # ops) st = assigned_ids ops (db_del_eq k st)"
| "assigned_ids (DeleteWhereLe k # ops) st = assigned_ids ops (db_del_le k st)"

section \<open>Notions for the statements\<close>


text \<open>
  What JSON keeps of a value: a number that is not finite and an \<^verbatim>\<open>undefined\<close> element
  of an array become \<^verbatim>\<open>null\<close>, an \<^verbatim>\<open>undefined\<close> property of an object is dropped.
\<close>

fun as_json :: "jsval \<Rightarrow> jsval"
  and as_json_elements :: "jsval list \<Rightarrow> jsval list"
  and as_json_members :: "(string \<times> jsval) list \<Rightarrow> (string \<times> jsval) list"
where
  "as_json JUndefined = JUndefined"
| "as_json JNull = JNull"
| "as_json (JBoolean b) = JBoolean b"
| "as_json (JNumber n) = (case n of Finite i \<Rightarrow> JNumber (Finite i) | _ \<Rightarrow> JNull)"
| "as_json (JString s) = JString s"
| "as_json (JArray xs) = JArray (as_json_elements xs)"
| "as_json (JObject kvs) = object_of_members (as_json_members kvs)"
| "as_json_elements [] = []"
| "as_json_elements (x # xs) = (if x = JUndefined then JNull else as_json x) # as_json_elements xs"
| "as_json_members [] = []"
| "as_json_members ((k, v) # kvs) =
     (if v = JUndefined then as_json_members kvs else (k, as_json v) # as_json_members kvs)"

text \<open>What may follow a value inside a text, and the text written for a value.\<close>

definition value_end :: "string \<Rightarrow> bool" where
  "value_end r = (r = [] \<or> hd r = CHR '','' \<or> hd r = CHR '']'' \<or> hd r = CHR ''}'')"

definition text_of :: "jsval \<Rightarrow> string" where
  "text_of v = (case SerializeJSONProperty v of None \<Rightarrow> ''null'' | Some t \<Rightarrow> t)"

text \<open>
  What a reader finds for a property that was stored from \<open>v\<close>, and the whole record
  a reader finds for a mail stored under the key \<open>n\<close>.
\<close>

definition kept :: "jsval \<Rightarrow> jsval" where
  "kept v = (if v = JUndefined then JNull else as_json v)"

definition read_back :: "int \<Rightarrow> mail_object \<Rightarrow> connection \<Rightarrow> int \<Rightarrow> int \<Rightarrow> email" where
  "read_back n mail conn t1 t2 =
     \<lparr>id_prop = n, created_at_prop = t1, updated_at_prop = t2,
      html_prop = kept (mail_html mail), text_prop = kept (mail_text mail),
      headers_prop = kept (mail_headers mail), subject_prop = kept (mail_subject mail),
      messageId_prop = kept (mail_messageId mail), priority_prop = kept (mail_priority mail),
      from_prop = kept (conn_from conn), to_prop = kept (conn_to conn)\<rparr>"

text \<open>The number of inserts in a history.\<close>

fun inserts :: "store_op list \<Rightarrow> nat" where
  "inserts [] = 0"
| "inserts (InsertMail mail conn t1 t2 # ops) = Suc (inserts ops)"
| "inserts (DeleteWhereEq k # ops) = inserts ops"
| "inserts (DeleteWhereLe k # ops) = inserts ops"

text \<open>
  The archive as the specification describes it, on decoded records: an insert appends
  the record under the next id, a delete by id removes the record with the id, a purge
  removes the records with an id up to the threshold; \<open>listAll\<close> is what is left, in
  insertion order.
\<close>

fun listAll_after :: "store_op list \<Rightarrow> int \<Rightarrow> email list \<Rightarrow> email list" where
  "listAll_after [] c es = es"
| "listAll_after (InsertMail mail conn t1 t2 # ops) c es =
     (if 9223372036854775807 \<le> c then listAll_after ops c es
      else listAll_after ops (c + 1) (es @ [read_back (c + 1) mail conn t1 t2]))"
| "listAll_after (DeleteWhereEq k # ops) c es = listAll_after ops c (filter (\<lambda>e. id_prop e \<noteq> k) es)"
| "listAll_after (DeleteWhereLe k # ops) c es = listAll_after ops c (filter (\<lambda>e. k < id_prop e) es)"

definition listAll :: "store_op list \<Rightarrow> email list" where
  "listAll ops = listAll_after ops 0 []"




text \<open>Invariants used in the proofs.\<close>

definition table_ok :: "store \<Rightarrow> bool" where
  "table_ok st = (0 \<le> seq st \<and> max_rowid (rows st) \<le> seq st)"

definition decoded_as :: "store \<Rightarrow> email list \<Rightarrow> bool" where
  "decoded_as st es =
     (table_ok st \<and> forEach_deserialize (map row_object (rows st)) = Inr es)"

definition only_row :: "int \<Rightarrow> row \<Rightarrow> store \<Rightarrow> bool" where
  "only_row n r st = (n \<le> seq st \<and> (db_where_eq n st = [r] \<or> db_where_eq n st = []))"

section \<open>Example data\<close>

text \<open>
  A mail with sender \<^verbatim>\<open>a@x\<close>, recipient \<^verbatim>\<open>b@y\<close>, subject \<^verbatim>\<open>Hi\<close> and the text
  \<^verbatim>\<open>hello\<close>, without an HTML part and without a message id; and the table after three
  such mails.
\<close>

definition example_mail :: mail_object where
  "example_mail =
     \<lparr>mail_html = JUndefined, mail_text = JString ''hello'',
      mail_headers = JObject [(''subject'', JString ''Hi'')], mail_subject = JString ''Hi'',
      mail_messageId = JUndefined, mail_priority = JString ''normal''\<rparr>"

definition example_conn :: connection where
  "example_conn = \<lparr>conn_from = JString ''a@x'', conn_to = JArray [JString ''b@y'']\<rparr>"

definition full_mail :: mail_object where
  "full_mail =
     \<lparr>mail_html = JString ''<p>hello</p>'', mail_text = JString ''hello'',
      mail_headers = JObject [(''subject'', JString ''Hi''),
                              (''received'', JArray [JString ''x'', JString ''y'']),
                              (''x-spam'', JNull), (''x-count'', JNumber (Finite (- 12)))],
      mail_subject = JString ''Hi'', mail_messageId = JString ''m1@x'',
      mail_priority = JString ''normal''\<rparr>"

definition three_mails :: store where
  "three_mails =
     history [InsertMail example_mail example_conn 10 10, InsertMail example_mail example_conn 20 21,
              InsertMail example_mail example_conn 30 30]"

text \<open>
  A history in which the record with the largest id is deleted before the next insert,
  and a purge that finds nothing; the table after one mail; a sink with three mails and
  two viewers.
\<close>

definition mixed_history :: "store_op list" where
  "mixed_history =
     [InsertMail full_mail example_conn 10 11, InsertMail example_mail example_conn 20 20,
      DeleteWhereEq 2, InsertMail example_mail example_conn 30 30, DeleteWhereLe 0]"

definition one_mail :: store where
  "one_mail = history [InsertMail example_mail example_conn 10 10]"

definition busy_sink :: sink where
  "busy_sink = \<lparr>db = three_mails, listeners = [4, 9]\<rparr>"

section \<open>The JSON text of a value is read back\<close>

subsection \<open>Numbers\<close>

lemma is_digit_digit_char: "d < 10 \<Longrightarrow> is_digit (digit_char d)"
  by (simp add: is_digit_def digit_char_def)

lemma digit_val_digit_char: "d < 10 \<Longrightarrow> digit_val (digit_char d) = d"
  by (simp add: digit_val_def digit_char_def)

lemma digits_not_Nil: "digits n \<noteq> []"
  by (subst digits.simps) simp

lemma digits_all_digit: "c \<in> set (digits n) \<Longrightarrow> is_digit c"
proof (induction n arbitrary: c rule: digits.induct)
  case (1 n)
  show ?case
  proof (cases "n < 10")
    case True
    with "1.prems" show ?thesis
      by (subst (asm) digits.simps) (simp add: is_digit_digit_char)
  next
    case False
    with "1.prems" have "c \<in> set (digits (n div 10)) \<or> c = digit_char (n mod 10)"
      by (subst (asm) digits.simps) auto
    with False "1.IH" show ?thesis
      by (auto simp: is_digit_digit_char)
  qed
qed

lemma nat_of_digits_snoc: "nat_of_digits (ds @ [c]) = 10 * nat_of_digits ds + digit_val c"
  by (simp add: nat_of_digits_def)

lemma nat_of_digits_digits: "nat_of_digits (digits n) = n"
proof (induction n rule: digits.induct)
  case (1 n)
  show ?case
  proof (cases "n < 10")
    case True
    then show ?thesis
      by (subst digits.simps) (simp add: nat_of_digits_def digit_val_digit_char)
  next
    case False
    with "1.IH" show ?thesis
      by (subst digits.simps) (simp add: nat_of_digits_snoc digit_val_digit_char)
  qed
qed

lemma hd_digits_zero: "hd (digits n) = CHR ''0'' \<Longrightarrow> length (digits n) = 1"
proof (induction n rule: digits.induct)
  case (1 n)
  show ?case
  proof (cases "n < 10")
    case True
    then show ?thesis by (subst digits.simps) simp
  next
    case False
    then have d: "digits n = digits (n div 10) @ [digit_char (n mod 10)]"
      by (subst digits.simps) simp
    with "1.prems" have z: "hd (digits (n div 10)) = CHR ''0''"
      by (simp add: digits_not_Nil)
    with False "1.IH" have "length (digits (n div 10)) = 1" by simp
    then obtain c where c: "digits (n div 10) = [c]"
      by (cases "digits (n div 10)") auto
    with z have "c = CHR ''0''" by simp
    with c have "nat_of_digits (digits (n div 10)) = 0"
      by (simp add: nat_of_digits_def digit_val_def)
    then have "n div 10 = 0" by (simp add: nat_of_digits_digits)
    with False show ?thesis by simp
  qed
qed

lemma value_end_not_digit: "value_end r \<Longrightarrow> r = [] \<or> \<not> is_digit (hd r)"
  by (auto simp: value_end_def is_digit_def)

lemma takeWhile_digits: "value_end r \<Longrightarrow> takeWhile is_digit (digits n @ r) = digits n"
  using value_end_not_digit [of r]
  by (cases r) (auto simp: digits_all_digit)

lemma dropWhile_digits: "value_end r \<Longrightarrow> dropWhile is_digit (digits n @ r) = r"
  using value_end_not_digit [of r]
  by (cases r) (auto simp: digits_all_digit)

lemma hd_digits_is_digit: "is_digit (hd (digits n))"
proof -
  have "hd (digits n) \<in> set (digits n)" by (simp add: digits_not_Nil)
  then show ?thesis by (rule digits_all_digit)
qed

lemma hd_digits_not_minus: "hd (digits n) \<noteq> CHR ''-''"
proof
  assume "hd (digits n) = CHR ''-''"
  with hd_digits_is_digit [of n] have "is_digit (CHR ''-'')" by simp
  then show False by (simp add: is_digit_def)
qed

lemma parse_number_toString:
  assumes "value_end r"
  shows "parse_number (Number_toString i @ r) = Some (JNumber (Finite i), r)"
proof -
  have z: "\<not> (hd (digits n) = CHR ''0'' \<and> 1 < length (digits n))" for n
    using hd_digits_zero [of n] by auto
  have e: "\<not> (r \<noteq> [] \<and> (hd r = CHR ''.'' \<or> hd r = CHR ''e'' \<or> hd r = CHR ''E''))"
    using assms by (auto simp: value_end_def)
  show ?thesis
  proof (cases "i < 0")
    case True
    then show ?thesis
      using z [of "nat (- i)"] e assms
      by (simp add: parse_number_def Number_toString_def takeWhile_digits dropWhile_digits
          digits_not_Nil nat_of_digits_digits Let_def)
  next
    case False
    have "hd (digits (nat i) @ r) \<noteq> CHR ''-''"
      using hd_digits_not_minus [of "nat i"] by (simp add: digits_not_Nil)
    with False show ?thesis
      using z [of "nat i"] e assms
      by (simp add: parse_number_def Number_toString_def takeWhile_digits dropWhile_digits
          digits_not_Nil nat_of_digits_digits Let_def)
  qed
qed

lemma Number_toString_head:
  "\<exists>c t. Number_toString i = c # t \<and> (c = CHR ''-'' \<or> is_digit c)"
proof (cases "i < 0")
  case True
  then show ?thesis by (simp add: Number_toString_def)
next
  case False
  obtain c t where "digits (nat i) = c # t"
    using digits_not_Nil [of "nat i"] by (cases "digits (nat i)") auto
  with hd_digits_is_digit [of "nat i"] False show ?thesis
    by (simp add: Number_toString_def)
qed

subsection \<open>Strings\<close>

lemma hex_val_hex_digit: "d < 16 \<Longrightarrow> hex_val (hex_digit d) = Some d"
  by (auto simp: hex_val_def hex_digit_def Let_def)

lemma unicode_escape_control:
  "n < 32 \<Longrightarrow>
   unicode_escape (CHR ''0'') (CHR ''0'') (hex_digit (n div 16)) (hex_digit (n mod 16)) =
     Some (char_of n)"
  by (simp add: unicode_escape_def hex_val_hex_digit) (simp add: hex_val_def)

lemma parse_string_chars_quote:
  "parse_string_chars (concat (map quote_char s) @ CHR 0x22 # r) = Some (s, r)"
proof (induction s)
  case Nil
  show ?case by simp
next
  case (Cons c s)
  consider (special) "c = CHR 0x08 \<or> c = CHR 0x09 \<or> c = CHR 0x0A \<or> c = CHR 0x0C \<or> c = CHR 0x0D
      \<or> c = CHR 0x22 \<or> c = CHR 0x5C"
    | (control) "\<not> (c = CHR 0x08 \<or> c = CHR 0x09 \<or> c = CHR 0x0A \<or> c = CHR 0x0C \<or> c = CHR 0x0D
      \<or> c = CHR 0x22 \<or> c = CHR 0x5C)" "(of_char c :: nat) < 32"
    | (plain) "\<not> (c = CHR 0x08 \<or> c = CHR 0x09 \<or> c = CHR 0x0A \<or> c = CHR 0x0C \<or> c = CHR 0x0D
      \<or> c = CHR 0x22 \<or> c = CHR 0x5C)" "\<not> (of_char c :: nat) < 32"
    by blast
  then show ?case
  proof cases
    case special
    with Cons.IH show ?thesis
      by (auto simp: quote_char_def simple_escape_def)
  next
    case control
    have "unicode_escape (CHR ''0'') (CHR ''0'') (hex_digit (of_char c div 16))
        (hex_digit (of_char c mod 16)) = Some (char_of (of_char c :: nat))"
      using control(2) by (rule unicode_escape_control)
    with control Cons.IH show ?thesis
      by (simp add: quote_char_def)
  next
    case plain
    with Cons.IH show ?thesis
      by (simp add: quote_char_def)
  qed
qed

lemma parse_string_QuoteJSONString:
  "parse_string_chars (tl (QuoteJSONString s) @ r) = Some (s, r)"
  by (simp add: QuoteJSONString_def parse_string_chars_quote)

subsection \<open>Values\<close>

lemma serialize_head:
  "v \<noteq> JUndefined \<Longrightarrow>
   \<exists>c t. SerializeJSONProperty v = Some (c # t) \<and> \<not> is_ws c \<and> c \<noteq> CHR '']'' \<and> c \<noteq> CHR ''}''"
proof (cases v)
  case (JNumber n)
  show ?thesis
  proof (cases n)
    case (Finite i)
    obtain c t where ct: "Number_toString i = c # t" "c = CHR ''-'' \<or> is_digit c"
      using Number_toString_head by blast
    from ct(2) have "\<not> is_ws c \<and> c \<noteq> CHR '']'' \<and> c \<noteq> CHR ''}''"
      by (auto simp: is_ws_def is_digit_def)
    with JNumber Finite ct(1) show ?thesis by simp
  qed (simp_all add: JNumber is_ws_def)
qed (auto simp: is_ws_def QuoteJSONString_def)

lemma text_of_head:
  "\<exists>c t. text_of v = c # t \<and> \<not> is_ws c \<and> c \<noteq> CHR '']'' \<and> c \<noteq> CHR ''}''"
proof (cases "v = JUndefined")
  case True
  then show ?thesis by (simp add: text_of_def is_ws_def)
next
  case False
  then show ?thesis using serialize_head [of v] by (auto simp: text_of_def)
qed

lemma skip_ws_head: "\<not> is_ws c \<Longrightarrow> skip_ws (c # t) = c # t"
  by (simp add: skip_ws_def)

lemma skip_ws_text_of: "skip_ws (text_of v @ r) = text_of v @ r"
  using text_of_head [of v] by (auto simp: skip_ws_head)

lemma join_Cons: "join sep (x # xs) = x @ (if xs = [] then [] else sep @ join sep xs)"
  by (cases xs) simp_all

lemma SerializeJSONArray_text_of: "SerializeJSONArray xs = map text_of xs"
  by (induction xs) (simp_all add: text_of_def)

lemma SerializeJSONObject_Nil: "SerializeJSONObject kvs = [] \<Longrightarrow> as_json_members kvs = []"
proof (induction kvs)
  case Nil
  show ?case by simp
next
  case (Cons kv kvs)
  obtain k v where kv: "kv = (k, v)" by (cases kv)
  show ?case
  proof (cases "v = JUndefined")
    case True
    with Cons kv show ?thesis by simp
  next
    case False
    then obtain t where "SerializeJSONProperty v = Some t" using serialize_head by blast
    with Cons.prems kv show ?thesis by simp
  qed
qed

lemma SerializeJSONObject_head:
  "SerializeJSONObject kvs \<noteq> [] \<Longrightarrow> \<exists>t. join '','' (SerializeJSONObject kvs) @ r = CHR 0x22 # t"
proof (induction kvs)
  case Nil
  then show ?case by simp
next
  case (Cons kv kvs)
  obtain k v where kv: "kv = (k, v)" by (cases kv)
  show ?case
  proof (cases "SerializeJSONProperty v")
    case None
    with Cons kv show ?thesis by simp
  next
    case (Some t)
    with kv show ?thesis by (simp add: join_Cons QuoteJSONString_def del: join.simps)
  qed
qed

lemma parse_members_step:
  assumes "parse_value m (skip_ws (tv @ R)) = Some (av, R)"
  shows "parse_members (Suc m) (QuoteJSONString k @ CHR '':'' # tv @ R) =
    (case skip_ws R of
       [] \<Rightarrow> None
     | d # r3 \<Rightarrow>
         if d = CHR ''}'' then Some ([(k, av)], r3)
         else if d = CHR '','' then
           (case parse_members m (skip_ws r3) of
              None \<Rightarrow> None
            | Some (ms, r4) \<Rightarrow> Some ((k, av) # ms, r4))
         else None)"
proof -
  have q: "QuoteJSONString k @ CHR '':'' # tv @ R =
      CHR 0x22 # (tl (QuoteJSONString k) @ CHR '':'' # tv @ R)"
    by (simp add: QuoteJSONString_def)
  have p: "parse_string_chars (tl (QuoteJSONString k) @ CHR '':'' # tv @ R)
      = Some (k, CHR '':'' # tv @ R)"
    by (rule parse_string_QuoteJSONString)
  have s: "skip_ws (CHR '':'' # tv @ R) = CHR '':'' # tv @ R"
    by (simp add: skip_ws_head is_ws_def)
  show ?thesis unfolding q using assms by (simp add: p s)
qed

lemma parse_serialized:
  fixes v :: jsval and xs :: "jsval list" and kvs :: "(string \<times> jsval) list"
  shows "v \<noteq> JUndefined \<longrightarrow> (\<forall>n r. value_end r \<longrightarrow> length (text_of v) < n \<longrightarrow>
           parse_value n (text_of v @ r) = Some (as_json v, r))"
    and "xs \<noteq> [] \<longrightarrow> (\<forall>n r. length (join '','' (SerializeJSONArray xs)) + 2 \<le> n \<longrightarrow>
           parse_elements n (join '','' (SerializeJSONArray xs) @ CHR '']'' # r)
             = Some (as_json_elements xs, r))"
    and "SerializeJSONObject kvs \<noteq> [] \<longrightarrow>
           (\<forall>n r. length (join '','' (SerializeJSONObject kvs)) + 2 \<le> n \<longrightarrow>
           parse_members n (join '','' (SerializeJSONObject kvs) @ CHR ''}'' # r)
             = Some (as_json_members kvs, r))"
proof (induction v and xs and kvs
    rule: SerializeJSONProperty_SerializeJSONArray_SerializeJSONObject.induct)
  case 1
  show ?case by simp
next
  case 2
  show ?case
  proof (intro impI allI)
    fix n r assume "length (text_of JNull) < n"
    then obtain m where "n = Suc m" by (cases n) auto
    then show "parse_value n (text_of JNull @ r) = Some (as_json JNull, r)"
      by (simp add: text_of_def)
  qed
next
  case (3 b)
  show ?case
  proof (intro impI allI)
    fix n r assume "length (text_of (JBoolean b)) < n"
    then obtain m where "n = Suc m" by (cases n) auto
    then show "parse_value n (text_of (JBoolean b) @ r) = Some (as_json (JBoolean b), r)"
      by (cases b) (simp_all add: text_of_def)
  qed
next
  case (4 x)
  show ?case
  proof (intro impI allI)
    fix n r assume ve: "value_end r" and len: "length (text_of (JNumber x)) < n"
    from len obtain m where n: "n = Suc m" by (cases n) auto
    show "parse_value n (text_of (JNumber x) @ r) = Some (as_json (JNumber x), r)"
    proof (cases x)
      case (Finite i)
      obtain c t where ct: "Number_toString i = c # t" "c = CHR ''-'' \<or> is_digit c"
        using Number_toString_head by blast
      have ne: "c \<noteq> CHR ''n''" "c \<noteq> CHR ''t''" "c \<noteq> CHR ''f''" "c \<noteq> CHR 0x22"
        "c \<noteq> CHR ''[''" "c \<noteq> CHR ''{''"
        using ct(2) by (auto simp: is_digit_def)
      have "parse_value (Suc m) (c # (t @ r)) = parse_number (c # (t @ r))"
        using ct(2) by (simp add: ne)
      also have "\<dots> = parse_number (Number_toString i @ r)" using ct(1) by simp
      also have "\<dots> = Some (JNumber (Finite i), r)"
        using ve by (rule parse_number_toString)
      finally show ?thesis using Finite n ct(1) by (simp add: text_of_def)
    qed (simp_all add: n text_of_def)
  qed
next
  case (5 s)
  show ?case
  proof (intro impI allI)
    fix n r assume "length (text_of (JString s)) < n"
    then obtain m where n: "n = Suc m" by (cases n) auto
    have "text_of (JString s) @ r = CHR 0x22 # tl (QuoteJSONString s) @ r"
      by (simp add: text_of_def QuoteJSONString_def)
    with n show "parse_value n (text_of (JString s) @ r) = Some (as_json (JString s), r)"
      by (simp add: parse_string_QuoteJSONString)
  qed
next
  case (6 xs)
  show ?case
  proof (intro impI allI)
    fix n r assume len: "length (text_of (JArray xs)) < n"
    then obtain m where n: "n = Suc m" by (cases n) auto
    have rendered: "text_of (JArray xs) = CHR ''['' # join '','' (SerializeJSONArray xs) @ '']''"
      by (simp add: text_of_def)
    show "parse_value n (text_of (JArray xs) @ r) = Some (as_json (JArray xs), r)"
    proof (cases xs)
      case Nil
      with n rendered show ?thesis by (simp add: skip_ws_head is_ws_def)
    next
      case (Cons y ys)
      let ?body = "join '','' (SerializeJSONArray xs) @ CHR '']'' # r"
      obtain c t where ct: "text_of y = c # t" "\<not> is_ws c" "c \<noteq> CHR '']''"
        using text_of_head by blast
      then have hd: "skip_ws ?body = ?body" "hd ?body \<noteq> CHR '']''" "?body \<noteq> []"
        using Cons
        by (simp_all add: SerializeJSONArray_text_of join_Cons skip_ws_head del: join.simps)
      have "parse_elements m ?body = Some (as_json_elements xs, r)"
        using 6 Cons len n rendered by simp
      with hd n rendered show ?thesis by simp
    qed
  qed
next
  case (7 kvs)
  show ?case
  proof (intro impI allI)
    fix n r assume len: "length (text_of (JObject kvs)) < n"
    then obtain m where n: "n = Suc m" by (cases n) auto
    have rendered: "text_of (JObject kvs) = CHR ''{'' # join '','' (SerializeJSONObject kvs) @ ''}''"
      by (simp add: text_of_def)
    show "parse_value n (text_of (JObject kvs) @ r) = Some (as_json (JObject kvs), r)"
    proof (cases "SerializeJSONObject kvs = []")
      case True
      with n rendered show ?thesis
        by (simp add: skip_ws_head is_ws_def SerializeJSONObject_Nil object_of_members_def)
    next
      case False
      let ?body = "join '','' (SerializeJSONObject kvs) @ CHR ''}'' # r"
      obtain t where t: "?body = CHR 0x22 # t"
        using SerializeJSONObject_head [OF False] by blast
      have hd: "skip_ws ?body = ?body" "hd ?body \<noteq> CHR ''}''" "?body \<noteq> []"
        unfolding t by (simp_all add: skip_ws_head is_ws_def)
      have "parse_members m ?body = Some (as_json_members kvs, r)"
        using 7 False len n rendered by simp
      with hd n rendered show ?thesis by simp
    qed
  qed
next
  case 8
  show ?case by simp
next
  case (9 x xs)
  show ?case
  proof (intro impI allI)
    fix n r assume len: "length (join '','' (SerializeJSONArray (x # xs))) + 2 \<le> n"
    then obtain m where n: "n = Suc m" by (cases n) auto
    let ?x = "if x = JUndefined then JNull else x"
    have tx: "text_of ?x = text_of x" by (simp add: text_of_def)
    have ax: "as_json ?x = (if x = JUndefined then JNull else as_json x)" by simp
    have px: "value_end r' \<Longrightarrow> length (text_of x) < k \<Longrightarrow>
        parse_value k (text_of x @ r') = Some (as_json ?x, r')" for k r'
    proof (cases "x = JUndefined")
      case True
      assume "length (text_of x) < k"
      then obtain j where "k = Suc j" by (cases k) auto
      with True show ?thesis by (simp add: text_of_def)
    next
      case False
      assume "value_end r'" "length (text_of x) < k"
      with False "9.IH"(1) show ?thesis by simp
    qed
    obtain c t where ct: "text_of x = c # t" using text_of_head by blast
    show "parse_elements n (join '','' (SerializeJSONArray (x # xs)) @ CHR '']'' # r)
        = Some (as_json_elements (x # xs), r)"
    proof (cases xs)
      case Nil
      have "parse_value m (text_of x @ CHR '']'' # r) = Some (as_json ?x, CHR '']'' # r)"
        using len n Nil by (intro px) (auto simp: value_end_def SerializeJSONArray_text_of)
      with n Nil ax show ?thesis
        by (simp add: SerializeJSONArray_text_of skip_ws_head is_ws_def)
    next
      case (Cons y ys)
      let ?rest = "join '','' (SerializeJSONArray xs) @ CHR '']'' # r"
      have pv: "parse_value m (text_of x @ CHR '','' # ?rest) = Some (as_json ?x, CHR '','' # ?rest)"
        using len n Cons
        by (intro px) (auto simp: value_end_def SerializeJSONArray_text_of)
      have sk: "skip_ws ?rest = ?rest"
        using Cons skip_ws_text_of [of y]
        by (simp add: SerializeJSONArray_text_of join_Cons del: join.simps)
      have "length (join '','' (SerializeJSONArray xs)) + 2 \<le> m"
        using len n Cons ct by (simp add: SerializeJSONArray_text_of)
      with "9.IH"(2) Cons have "parse_elements m ?rest = Some (as_json_elements xs, r)"
        by simp
      with pv sk n Cons ax show ?thesis
        by (simp add: SerializeJSONArray_text_of skip_ws_head is_ws_def)
    qed
  qed
next
  case 10
  show ?case by simp
next
  case (11 k v kvs)
  show ?case
  proof (cases "v = JUndefined")
    case True
    with "11.IH"(2) show ?thesis by simp
  next
    case False
    then obtain tv where tv: "SerializeJSONProperty v = Some tv" using serialize_head by blast
    then have tov: "text_of v = tv" by (simp add: text_of_def)
    obtain c t where ct: "tv = c # t" using text_of_head [of v] tov by auto
    have ser: "SerializeJSONObject ((k, v) # kvs) =
        (QuoteJSONString k @ '':'' @ tv) # SerializeJSONObject kvs"
      using tv by simp
    have am: "as_json_members ((k, v) # kvs) = (k, as_json v) # as_json_members kvs"
      using False by simp
    have lk: "2 \<le> length (QuoteJSONString k)" by (simp add: QuoteJSONString_def)
    show ?thesis
    proof (intro impI allI)
      fix n r
      assume len: "length (join '','' (SerializeJSONObject ((k, v) # kvs))) + 2 \<le> n"
      then obtain m where n: "n = Suc m" by (cases n) auto
      show "parse_members n (join '','' (SerializeJSONObject ((k, v) # kvs)) @ CHR ''}'' # r)
          = Some (as_json_members ((k, v) # kvs), r)"
      proof (cases "SerializeJSONObject kvs = []")
        case True
        have l: "length tv < m"
          using len lk unfolding ser n True by simp
        have pv: "parse_value m (tv @ CHR ''}'' # r) = Some (as_json v, CHR ''}'' # r)"
          using "11.IH"(1) False l tov by (simp add: value_end_def)
        have "parse_members (Suc m) (QuoteJSONString k @ CHR '':'' # tv @ CHR ''}'' # r)
            = Some ([(k, as_json v)], r)"
          using pv skip_ws_text_of [of v "CHR ''}'' # r"] tov
          by (simp add: parse_members_step skip_ws_head is_ws_def)
        then show ?thesis
          unfolding ser n am True SerializeJSONObject_Nil [OF True] by simp
      next
        case nonempty: False
        let ?rest = "join '','' (SerializeJSONObject kvs) @ CHR ''}'' # r"
        have l: "length tv < m" "length (join '','' (SerializeJSONObject kvs)) + 2 \<le> m"
          using len lk ct nonempty unfolding ser n join_Cons by simp_all
        have pv: "parse_value m (tv @ CHR '','' # ?rest) = Some (as_json v, CHR '','' # ?rest)"
          using "11.IH"(1) False l(1) tov by (simp add: value_end_def)
        obtain t' where t': "?rest = CHR 0x22 # t'"
          using SerializeJSONObject_head [OF nonempty] by blast
        have sk: "skip_ws ?rest = ?rest" unfolding t' by (simp add: skip_ws_head is_ws_def)
        have pm: "parse_members m ?rest = Some (as_json_members kvs, r)"
          using "11.IH"(3) [OF tv] nonempty l(2) by simp
        have "parse_members (Suc m) (QuoteJSONString k @ CHR '':'' # tv @ CHR '','' # ?rest)
            = Some ((k, as_json v) # as_json_members kvs, r)"
          using pv skip_ws_text_of [of v "CHR '','' # ?rest"] tov
          by (simp add: parse_members_step skip_ws_head is_ws_def sk pm del: join.simps)
        then show ?thesis
          unfolding ser n am join_Cons using nonempty by simp
      qed
    qed
  qed
qed

section \<open>Stored properties are read back\<close>

lemma JSON_parse_text_serialized:
  assumes "v \<noteq> JUndefined"
  shows "\<exists>t. JSON_stringify v = Some t \<and> JSON_parse_text t = Inr (as_json v)"
proof -
  from assms obtain t where t: "SerializeJSONProperty v = Some t" using serialize_head by blast
  then have tt: "text_of v = t" by (simp add: text_of_def)
  have "skip_ws t = t" using skip_ws_text_of [of v "[]"] tt by simp
  moreover have "parse_value (Suc (length t)) (t @ []) = Some (as_json v, [])"
    using parse_serialized(1) [of v] assms tt by (simp add: value_end_def)
  ultimately show ?thesis using t by (simp add: JSON_stringify_def JSON_parse_text_def skip_ws_def)
qed

lemma JSON_parse_null: "JSON_parse JNull = Inr JNull"
  by (simp add: JSON_parse_def JSON_parse_text_def skip_ws_def is_ws_def)

lemma stored_value_read: "JSON_parse (column_value (JSON_stringify v)) = Inr (kept v)"
proof (cases "v = JUndefined")
  case True
  then show ?thesis
    by (simp add: JSON_stringify_def column_value_def kept_def JSON_parse_null)
next
  case False
  then obtain t where "JSON_stringify v = Some t" "JSON_parse_text t = Inr (as_json v)"
    using JSON_parse_text_serialized by blast
  with False show ?thesis by (simp add: column_value_def kept_def JSON_parse_def)
qed






lemma row_object_with_id:
  "row_object (with_id n v) =
     \<lparr>id_prop = n, created_at_prop = created_at_col v, updated_at_prop = updated_at_col v,
      html_prop = column_value (html_col v), text_prop = column_value (text_col v),
      headers_prop = column_value (headers_col v), subject_prop = column_value (subject_col v),
      messageId_prop = column_value (messageId_col v), priority_prop = column_value (priority_col v),
      from_prop = column_value (from_col v), to_prop = column_value (to_col v)\<rparr>"
  by (simp add: row_object_def with_id_def insert_values.defs row.defs)

lemma deserialize_inserted:
  "deserialize (row_object (with_id n (email_values mail conn t1 t2))) =
     Inr (read_back n mail conn t1 t2)"
  by (simp add: deserialize_def row_object_with_id email_values_def stored_value_read
      and_then_def read_back_def)




section \<open>The keys of the table\<close>

lemma id_col_with_id: "id_col (with_id n v) = n"
  by (simp add: with_id_def insert_values.defs row.defs)

lemma max_rowid_ge: "r \<in> set rs \<Longrightarrow> id_col r \<le> max_rowid rs"
  by (induction rs) auto

lemma max_rowid_filter: "max_rowid (filter P rs) \<le> max_rowid rs"
  by (induction rs) auto

lemma max_rowid_append: "max_rowid (rs @ [r]) = max (max_rowid rs) (id_col r)"
  by (induction rs) (simp_all add: max.assoc max.commute)

lemma db_insert_cases:
  "db_insert v st =
     (if 9223372036854775807 \<le> max (seq st) (max_rowid (rows st)) then Inl SqliteFull
      else Inr (max (seq st) (max_rowid (rows st)) + 1,
                \<lparr>rows = rows st @ [with_id (max (seq st) (max_rowid (rows st)) + 1) v],
                 seq = max (seq st) (max_rowid (rows st)) + 1\<rparr>))"
  by (simp add: db_insert_def Let_def)

lemma db_insert_Inr:
  assumes "db_insert v st = Inr (n, st')"
  shows "seq st < n" and "max_rowid (rows st) < n" and "seq st' = n"
    and "rows st' = rows st @ [with_id n v]" and "n \<le> 9223372036854775807"
  using assms by (auto simp: db_insert_cases split: if_splits)

lemma table_ok_empty: "table_ok empty_store"
  by (simp add: table_ok_def empty_store_def)

lemma table_ok_insert:
  assumes "table_ok st" and "db_insert v st = Inr (n, st')"
  shows "table_ok st'" and "n = seq st + 1"
  using assms
  by (auto simp: table_ok_def db_insert_cases max_rowid_append id_col_with_id split: if_splits)

lemma table_ok_del_eq: "table_ok st \<Longrightarrow> table_ok (db_del_eq k st)"
  using max_rowid_filter [of "\<lambda>r. \<not> id_col r = k" "rows st"]
  by (simp add: table_ok_def db_del_eq_def)

lemma table_ok_del_le: "table_ok st \<Longrightarrow> table_ok (db_del_le k st)"
  using max_rowid_filter [of "\<lambda>r. \<not> id_col r \<le> k" "rows st"]
  by (simp add: table_ok_def db_del_le_def)

lemma table_ok_apply: "table_ok st \<Longrightarrow> table_ok (apply_store_op op st)"
proof (cases op)
  case (InsertMail mail conn t1 t2)
  assume ok: "table_ok st"
  show ?thesis
  proof (cases "db_insert (email_values mail conn t1 t2) st")
    case (Inl e)
    with InsertMail ok show ?thesis by simp
  next
    case (Inr p)
    obtain n st' where "p = (n, st')" by (cases p)
    with Inr InsertMail ok table_ok_insert(1) show ?thesis by auto
  qed
qed (simp_all add: table_ok_del_eq table_ok_del_le)

lemma table_ok_fold: "table_ok st \<Longrightarrow> table_ok (fold apply_store_op ops st)"
  by (induction ops arbitrary: st) (simp_all add: table_ok_apply)

lemma table_ok_history: "table_ok (history ops)"
  by (simp add: history_def table_ok_fold table_ok_empty)

lemma assigned_ids_above_seq:
  "i \<in> set (assigned_ids ops st) \<Longrightarrow> seq st < i"
proof (induction ops arbitrary: st)
  case Nil
  then show ?case by simp
next
  case (Cons op ops)
  show ?case
  proof (cases op)
    case (InsertMail mail conn t1 t2)
    show ?thesis
    proof (cases "db_insert (email_values mail conn t1 t2) st")
      case (Inl e)
      with Cons InsertMail show ?thesis by simp
    next
      case (Inr p)
      obtain n st' where p: "p = (n, st')" by (cases p)
      with Inr have "seq st < n" "seq st' = n" by (auto dest: db_insert_Inr)
      moreover from Cons.prems InsertMail Inr p have "i = n \<or> i \<in> set (assigned_ids ops st')"
        by simp
      ultimately show ?thesis using Cons.IH [of st'] by auto
    qed
  next
    case (DeleteWhereEq k)
    with Cons show ?thesis using Cons.IH [of "db_del_eq k st"] by (simp add: db_del_eq_def)
  next
    case (DeleteWhereLe k)
    with Cons show ?thesis using Cons.IH [of "db_del_le k st"] by (simp add: db_del_le_def)
  qed
qed

lemma assigned_ids_sorted: "sorted_wrt (<) (assigned_ids ops st)"
proof (induction ops arbitrary: st)
  case Nil
  show ?case by simp
next
  case (Cons op ops)
  show ?case
  proof (cases op)
    case (InsertMail mail conn t1 t2)
    show ?thesis
    proof (cases "db_insert (email_values mail conn t1 t2) st")
      case (Inl e)
      with Cons InsertMail show ?thesis by simp
    next
      case (Inr p)
      obtain n st' where p: "p = (n, st')" by (cases p)
      with Inr have "seq st' = n" by (auto dest: db_insert_Inr)
      then have "\<forall>i \<in> set (assigned_ids ops st'). n < i"
        using assigned_ids_above_seq [of _ ops st'] by auto
      with Cons.IH [of st'] InsertMail Inr p show ?thesis by simp
    qed
  qed (simp_all add: Cons.IH)
qed

lemma assigned_ids_length:
  "table_ok st \<Longrightarrow>
   int (length (assigned_ids ops st)) =
     max 0 (min (int (inserts ops)) (9223372036854775807 - seq st))"
proof (induction ops arbitrary: st)
  case Nil
  then show ?case by (simp add: table_ok_def)
next
  case (Cons op ops)
  show ?case
  proof (cases op)
    case (InsertMail mail conn t1 t2)
    show ?thesis
    proof (cases "db_insert (email_values mail conn t1 t2) st")
      case (Inl e)
      then have full: "9223372036854775807 \<le> seq st"
        using Cons.prems by (auto simp: db_insert_cases table_ok_def split: if_splits)
      with Cons.IH [OF Cons.prems] InsertMail Inl show ?thesis by simp
    next
      case (Inr p)
      obtain n st' where p: "p = (n, st')" by (cases p)
      with Inr Cons.prems have ok: "table_ok st'" and n: "n = seq st + 1"
        using table_ok_insert by blast+
      from Inr p have "seq st' = n" "n \<le> 9223372036854775807" by (auto dest: db_insert_Inr)
      with Cons.IH [OF ok] InsertMail Inr p n show ?thesis by simp
    qed
  next
    case (DeleteWhereEq k)
    with Cons.IH [OF table_ok_del_eq [OF Cons.prems], of k] show ?thesis
      by (simp add: db_del_eq_def)
  next
    case (DeleteWhereLe k)
    with Cons.IH [OF table_ok_del_le [OF Cons.prems], of k] show ?thesis
      by (simp add: db_del_le_def)
  qed
qed

text \<open>
  C3. In every history of the table from its creation, with any deletes and purges
  between the inserts: the keys the inserts return are strictly increasing in insertion
  order, hence unique; N inserts return N keys (below the largest 64-bit integer, where
  SQLite refuses the insert); and a key returned later is larger than the id of every
  record the table held at any earlier moment, so the id of a deleted record is never
  given again.
\<close>

theorem assigned_ids_unique_increasing:
  "sorted_wrt (<) (assigned_ids ops empty_store)
   \<and> distinct (assigned_ids ops empty_store)
   \<and> int (length (assigned_ids ops empty_store)) = min (int (inserts ops)) 9223372036854775807
   \<and> (\<forall>r \<in> set (rows (history before)).
        \<forall>i \<in> set (assigned_ids after (history before)). id_col r < i)"
proof -
  have s: "sorted_wrt (<) (assigned_ids ops empty_store)" by (rule assigned_ids_sorted)
  then have d: "distinct (assigned_ids ops empty_store)"
    using strict_sorted_iff by blast
  have l: "int (length (assigned_ids ops empty_store)) = min (int (inserts ops)) 9223372036854775807"
    using assigned_ids_length [OF table_ok_empty, of ops] by (simp add: empty_store_def)
  have "id_col r < i"
    if "r \<in> set (rows (history before))" "i \<in> set (assigned_ids after (history before))" for r i
  proof -
    have "id_col r \<le> max_rowid (rows (history before))" using that(1) by (rule max_rowid_ge)
    also have "\<dots> \<le> seq (history before)" using table_ok_history by (simp add: table_ok_def)
    also have "\<dots> < i" using that(2) by (rule assigned_ids_above_seq)
    finally show ?thesis .
  qed
  with s d l show ?thesis by blast
qed

theorem assigned_ids_unique_increasing_witness:
  "assigned_ids mixed_history empty_store = [1, 2, 3]
   \<and> inserts mixed_history = 3
   \<and> map id_col (rows (history (take 2 mixed_history))) = [1, 2]
   \<and> assigned_ids (drop 2 mixed_history) (history (take 2 mixed_history)) = [3]
   \<and> sorted_wrt (<) (assigned_ids mixed_history empty_store)
   \<and> distinct (assigned_ids mixed_history empty_store)
   \<and> int (length (assigned_ids mixed_history empty_store)) =
       min (int (inserts mixed_history)) 9223372036854775807"
proof -
  have a: "assigned_ids mixed_history empty_store = [1, 2, 3]" by code_simp
  have b: "inserts mixed_history = 3" by code_simp
  have c: "map id_col (rows (history (take 2 mixed_history))) = [1, 2]" by code_simp
  have d: "assigned_ids (drop 2 mixed_history) (history (take 2 mixed_history)) = [3]"
    by code_simp
  from assigned_ids_unique_increasing
    [of mixed_history "take 2 mixed_history" "drop 2 mixed_history"] a b c d
  show ?thesis by blast
qed

section \<open>The listing\<close>

lemma deserialize_id: "deserialize ob = Inr d \<Longrightarrow> id_prop d = id_prop ob"
  by (auto simp: deserialize_def and_then_def split: sum.splits)

lemma forEach_append:
  "forEach_deserialize (xs @ ys) =
     and_then (forEach_deserialize xs) (\<lambda>a. and_then (forEach_deserialize ys) (\<lambda>b. Inr (a @ b)))"
  by (induction xs) (auto simp: and_then_def split: sum.splits)

lemma forEach_filter:
  "forEach_deserialize (map row_object rs) = Inr es \<Longrightarrow>
   forEach_deserialize (map row_object (filter (\<lambda>r. P (id_col r)) rs)) =
     Inr (filter (\<lambda>e. P (id_prop e)) es)"
proof (induction rs arbitrary: es)
  case Nil
  then show ?case by simp
next
  case (Cons r rs)
  from Cons.prems obtain d ds where d: "deserialize (row_object r) = Inr d"
    and ds: "forEach_deserialize (map row_object rs) = Inr ds" and es: "es = d # ds"
    by (auto simp: and_then_def split: sum.splits)
  from d have "id_prop d = id_col r" using deserialize_id by (fastforce simp: row_object_def)
  with Cons.IH [OF ds] d es show ?case by (simp add: and_then_def)
qed

lemma forEach_ids:
  "forEach_deserialize obs = Inr es \<Longrightarrow> map id_prop es = map id_prop obs"
proof (induction obs arbitrary: es)
  case Nil
  then show ?case by simp
next
  case (Cons ob obs)
  from Cons.prems obtain d ds where d: "deserialize ob = Inr d"
    and ds: "forEach_deserialize obs = Inr ds" and es: "es = d # ds"
    by (auto simp: and_then_def split: sum.splits)
  with Cons.IH [OF ds] deserialize_id [OF d] show ?case by simp
qed

lemma decoded_as_empty: "decoded_as empty_store []"
  by (simp add: decoded_as_def table_ok_empty) (simp add: empty_store_def)

lemma decoded_as_insert:
  assumes "decoded_as st es" and "db_insert (email_values mail conn t1 t2) st = Inr (n, st')"
  shows "decoded_as st' (es @ [read_back n mail conn t1 t2])"
proof -
  from assms(2) have r: "rows st' = rows st @ [with_id n (email_values mail conn t1 t2)]"
    by (rule db_insert_Inr)
  from assms have "table_ok st'" using table_ok_insert(1) by (auto simp: decoded_as_def)
  with assms(1) r show ?thesis
    by (simp add: decoded_as_def forEach_append deserialize_inserted and_then_def)
qed

lemma decoded_as_del_eq:
  assumes "decoded_as st es"
  shows "decoded_as (db_del_eq k st) (filter (\<lambda>e. id_prop e \<noteq> k) es)"
proof -
  from assms have "forEach_deserialize (map row_object (rows st)) = Inr es"
    by (simp add: decoded_as_def)
  then have "forEach_deserialize (map row_object (filter (\<lambda>r. id_col r \<noteq> k) (rows st))) =
      Inr (filter (\<lambda>e. id_prop e \<noteq> k) es)"
    by (rule forEach_filter)
  with assms table_ok_del_eq [of st k] show ?thesis
    by (simp add: decoded_as_def) (simp add: db_del_eq_def)
qed

lemma decoded_as_del_le:
  assumes "decoded_as st es"
  shows "decoded_as (db_del_le k st) (filter (\<lambda>e. k < id_prop e) es)"
proof -
  from assms have "forEach_deserialize (map row_object (rows st)) = Inr es"
    by (simp add: decoded_as_def)
  then have "forEach_deserialize (map row_object (filter (\<lambda>r. k < id_col r) (rows st))) =
      Inr (filter (\<lambda>e. k < id_prop e) es)"
    by (rule forEach_filter)
  with assms table_ok_del_le [of st k] show ?thesis
    by (simp add: decoded_as_def) (simp add: db_del_le_def not_le)
qed

lemma decoded_as_fold:
  "decoded_as st es \<Longrightarrow>
   decoded_as (fold apply_store_op ops st) (listAll_after ops (seq st) es)"
proof (induction ops arbitrary: st es)
  case Nil
  then show ?case by simp
next
  case (Cons op ops)
  from Cons.prems have ok: "table_ok st" by (simp add: decoded_as_def)
  show ?case
  proof (cases op)
    case (InsertMail mail conn t1 t2)
    show ?thesis
    proof (cases "db_insert (email_values mail conn t1 t2) st")
      case (Inl e)
      then have "9223372036854775807 \<le> seq st"
        using ok by (auto simp: db_insert_cases table_ok_def split: if_splits)
      with Cons.IH [OF Cons.prems] InsertMail Inl show ?thesis by simp
    next
      case (Inr p)
      obtain n st' where p: "p = (n, st')" by (cases p)
      with Inr ok have n: "n = seq st + 1" using table_ok_insert(2) by blast
      from Inr p have s: "seq st' = n" "n \<le> 9223372036854775807" by (auto dest: db_insert_Inr)
      from Cons.prems Inr p have "decoded_as st' (es @ [read_back n mail conn t1 t2])"
        by (auto intro: decoded_as_insert)
      from Cons.IH [OF this] InsertMail Inr p n s show ?thesis by simp
    qed
  next
    case (DeleteWhereEq k)
    from Cons.IH [OF decoded_as_del_eq [OF Cons.prems, of k]] DeleteWhereEq show ?thesis
      by (simp add: db_del_eq_def)
  next
    case (DeleteWhereLe k)
    from Cons.IH [OF decoded_as_del_le [OF Cons.prems, of k]] DeleteWhereLe show ?thesis
      by (simp add: db_del_le_def)
  qed
qed

lemma decoded_as_history: "decoded_as (history ops) (listAll ops)"
  using decoded_as_fold [OF decoded_as_empty, of ops]
  by (simp add: history_def listAll_def empty_store_def)

lemma rows_sorted_apply:
  assumes "table_ok st" and "sorted_wrt (<) (map id_col (rows st))"
  shows "sorted_wrt (<) (map id_col (rows (apply_store_op op st)))"
proof (cases op)
  case (InsertMail mail conn t1 t2)
  show ?thesis
  proof (cases "db_insert (email_values mail conn t1 t2) st")
    case (Inl e)
    with InsertMail assms show ?thesis by simp
  next
    case (Inr p)
    obtain n st' where p: "p = (n, st')" by (cases p)
    with Inr have r: "rows st' = rows st @ [with_id n (email_values mail conn t1 t2)]"
      and m: "max_rowid (rows st) < n" by (auto dest: db_insert_Inr)
    have "\<forall>x \<in> set (rows st). id_col x < n"
      using m max_rowid_ge by fastforce
    with assms(2) r InsertMail Inr p show ?thesis
      by (simp add: sorted_wrt_append id_col_with_id)
  qed
next
  case (DeleteWhereEq k)
  with assms(2) show ?thesis
    by (simp add: db_del_eq_def sorted_wrt_map sorted_wrt_filter)
next
  case (DeleteWhereLe k)
  with assms(2) show ?thesis
    by (simp add: db_del_le_def sorted_wrt_map sorted_wrt_filter)
qed

lemma rows_sorted_fold:
  "table_ok st \<Longrightarrow> sorted_wrt (<) (map id_col (rows st)) \<Longrightarrow>
   sorted_wrt (<) (map id_col (rows (fold apply_store_op ops st)))"
  by (induction ops arbitrary: st) (simp_all add: rows_sorted_apply table_ok_apply)

lemma rows_sorted_history: "sorted_wrt (<) (map id_col (rows (history ops)))"
  using rows_sorted_fold [OF table_ok_empty, of ops] by (simp add: history_def empty_store_def)

text \<open>
  C9. After every history of the table, \<^verbatim>\<open>GET /api/email\<close> answers 200 with all stored
  records, one for each row, in insertion order, which is the order of ascending id,
  every one with its eight properties decoded: the answer is the archive of the
  specification, \<open>listAll\<close>.
\<close>

theorem api_email_lists_all:
  "api_email (history ops) = Inr (Response 200 (JsonArray (listAll ops)))
   \<and> map id_prop (listAll ops) = map id_col (rows (history ops))
   \<and> sorted_wrt (<) (map id_prop (listAll ops))"
proof -
  have d: "forEach_deserialize (map row_object (rows (history ops))) = Inr (listAll ops)"
    using decoded_as_history [of ops] by (simp add: decoded_as_def)
  then have a: "api_email (history ops) = Inr (Response 200 (JsonArray (listAll ops)))"
    by (simp add: api_email_def db_select_all_def and_then_def)
  have i: "map id_prop (listAll ops) = map id_col (rows (history ops))"
    using forEach_ids [OF d] by (simp add: row_object_def comp_def)
  with rows_sorted_history [of ops] a show ?thesis by simp
qed

theorem api_email_lists_all_witness:
  "listAll mixed_history =
     [read_back 1 full_mail example_conn 10 11, read_back 3 example_mail example_conn 30 30]
   \<and> api_email (history mixed_history) = Inr (Response 200 (JsonArray (listAll mixed_history)))
   \<and> map id_prop (listAll mixed_history) = map id_col (rows (history mixed_history))
   \<and> sorted_wrt (<) (map id_prop (listAll mixed_history))"
proof -
  have a: "listAll mixed_history =
     [read_back 1 full_mail example_conn 10 11, read_back 3 example_mail example_conn 30 30]"
    by code_simp
  from api_email_lists_all [of mixed_history] a show ?thesis by blast
qed

section \<open>The streamed listing\<close>

lemma api_email_stream_rows: "streamed (api_email_stream st) = map row_object (db_select_all st)"
proof -
  have "streamed (map (\<lambda>x. Item sep (f x)) xs @ [Piece c]) = map f xs" for sep c f and xs :: "row list"
    by (induction xs) simp_all
  then show ?thesis
    by (cases "db_select_all st")
       (simp_all add: api_email_stream_def JSONStream_stringify_def comp_def)
qed

lemma rows_one_mail: "rows one_mail = [with_id 1 (email_values example_mail example_conn 10 10)]"
  by (simp add: one_mail_def history_def db_insert_def empty_store_def)

text \<open>
  C4. \<^verbatim>\<open>GET /api/email/stream\<close> sends the rows of the same query in the same order, but
  as the database returns them: it does not call \<^verbatim>\<open>deserialize\<close>, which every other
  route does. With one stored mail of subject \<^verbatim>\<open>Hi\<close>, the listing has the subject
  \<^verbatim>\<open>Hi\<close> and the stream has the JSON text of it, the four characters \<^verbatim>\<open>"Hi"\<close>.
\<close>

theorem stream_sends_undecoded_rows:
  "api_email one_mail = Inr (Response 200 (JsonArray [read_back 1 example_mail example_conn 10 10]))
   \<and> subject_prop (read_back 1 example_mail example_conn 10 10) = JString ''Hi''
   \<and> map subject_prop (streamed (api_email_stream one_mail)) = [JString (CHR 0x22 # ''Hi'' @ [CHR 0x22])]
   \<and> streamed (api_email_stream one_mail) \<noteq> [read_back 1 example_mail example_conn 10 10]"
proof -
  have a: "api_email one_mail =
      Inr (Response 200 (JsonArray [read_back 1 example_mail example_conn 10 10]))"
    by (simp add: api_email_def db_select_all_def rows_one_mail deserialize_inserted and_then_def)
  have b: "subject_prop (read_back 1 example_mail example_conn 10 10) = JString ''Hi''"
    by (simp add: read_back_def kept_def example_mail_def)
  have "JSON_stringify (JString ''Hi'') = Some (CHR 0x22 # ''Hi'' @ [CHR 0x22])"
    by (simp add: JSON_stringify_def QuoteJSONString_def quote_char_def)
  then have c: "map subject_prop (streamed (api_email_stream one_mail)) =
      [JString (CHR 0x22 # ''Hi'' @ [CHR 0x22])]"
    by (simp add: api_email_stream_rows db_select_all_def rows_one_mail row_object_with_id
        email_values_def example_mail_def column_value_def)
  from b c have "map subject_prop (streamed (api_email_stream one_mail)) \<noteq>
      map subject_prop [read_back 1 example_mail example_conn 10 10]"
    by simp
  then have "streamed (api_email_stream one_mail) \<noteq> [read_back 1 example_mail example_conn 10 10]"
    by metis
  with a b c show ?thesis by simp
qed

section \<open>Delete and purge\<close>

lemma api_email_delete_cases:
  "api_email_delete k during s =
     (if (\<exists>r \<in> set (rows (db s)). id_col r = k)
      then (Response 200 (Text ''Removed''),
            (fold interfere during s)\<lparr>db := db_del_eq k (db (fold interfere during s))\<rparr>)
      else (Response 404 (Text ''Not found''), s))"
  by (auto simp: api_email_delete_def db_where_eq_def Let_def filter_empty_conv)

lemma api_email_purge_cases:
  "api_email_purge k during s =
     (if (\<exists>r \<in> set (rows (db s)). id_col r \<le> k)
      then (Response 200 (Text (''Purged records older than '' @ Number_toString k)),
            (fold interfere during s)\<lparr>db := db_del_le k (db (fold interfere during s))\<rparr>)
      else (Response 404 (Text ''Not found''), s))"
  by (auto simp: api_email_purge_def db_where_le_def Let_def filter_empty_conv)

lemma length_filter_distinct_key:
  "distinct (map f xs) \<Longrightarrow> x \<in> set xs \<Longrightarrow> length (filter (\<lambda>y. f y \<noteq> f x) xs) + 1 = length xs"
proof (induction xs)
  case Nil
  then show ?case by simp
next
  case (Cons a xs)
  show ?case
  proof (cases "a = x")
    case True
    with Cons.prems have "f x \<notin> f ` set xs" by simp
    then have "\<forall>y \<in> set xs. f y \<noteq> f x" by (auto simp: image_def)
    then have "filter (\<lambda>y. f y \<noteq> f x) xs = xs" by (simp add: filter_id_conv)
    with True show ?thesis by simp
  next
    case False
    with Cons.prems have "x \<in> set xs" "f a \<noteq> f x" by auto
    with Cons show ?thesis by simp
  qed
qed

lemma rows_three: "rows three_mails =
  [with_id 1 (email_values example_mail example_conn 10 10),
   with_id 2 (email_values example_mail example_conn 20 21),
   with_id 3 (email_values example_mail example_conn 30 30)]"
  by (simp add: three_mails_def history_def db_insert_def empty_store_def id_col_with_id Let_def)

text \<open>
  C7. For every state of the table (its keys distinct, as a primary key's are) and every
  id \<open>k\<close>: when a row has the id, \<^verbatim>\<open>GET /api/email/delete/k\<close> answers 200, removes
  that one row and leaves every other row, their order and the key counter as they
  were; when no row has it, the answer is 404 and nothing is changed. Where others
  write between the handler's select and its delete, the delete removes the rows with
  the id from the table as it is then, and nothing else.
\<close>

theorem api_email_delete_effect:
  assumes "distinct (map id_col (rows (db s)))"
  shows "if (\<exists>r \<in> set (rows (db s)). id_col r = k)
         then fst (api_email_delete k during s) = Response 200 (Text ''Removed'')
            \<and> rows (db (snd (api_email_delete k [] s))) =
                filter (\<lambda>r. id_col r \<noteq> k) (rows (db s))
            \<and> length (rows (db (snd (api_email_delete k [] s)))) + 1 = length (rows (db s))
            \<and> seq (db (snd (api_email_delete k [] s))) = seq (db s)
            \<and> rows (db (snd (api_email_delete k during s))) =
                filter (\<lambda>r. id_col r \<noteq> k) (rows (db (fold interfere during s)))
            \<and> seq (db (snd (api_email_delete k during s))) = seq (db (fold interfere during s))
         else api_email_delete k during s = (Response 404 (Text ''Not found''), s)"
proof (cases "\<exists>r \<in> set (rows (db s)). id_col r = k")
  case True
  then obtain r where r: "r \<in> set (rows (db s))" "id_col r = k" by blast
  have "length (filter (\<lambda>y. id_col y \<noteq> id_col r) (rows (db s))) + 1 = length (rows (db s))"
    using assms r(1) by (rule length_filter_distinct_key)
  with True r(2) show ?thesis by (simp add: api_email_delete_cases db_del_eq_def)
next
  case False
  then show ?thesis by (simp add: api_email_delete_cases)
qed

theorem api_email_delete_effect_witness:
  "distinct (map id_col (rows (db busy_sink)))
   \<and> (\<exists>r \<in> set (rows (db busy_sink)). id_col r = 2)
   \<and> fst (api_email_delete 2 [] busy_sink) = Response 200 (Text ''Removed'')
   \<and> map id_col (rows (db (snd (api_email_delete 2 [] busy_sink)))) = [1, 3]
   \<and> map id_col (rows (db (snd (api_email_delete 2
        [OtherInsert (email_values example_mail example_conn 40 41), OtherDelete 1] busy_sink)))) = [3, 4]
   \<and> api_email_delete 7 [] busy_sink = (Response 404 (Text ''Not found''), busy_sink)"
proof -
  have d: "distinct (map id_col (rows (db busy_sink)))"
    by (simp add: busy_sink_def rows_three id_col_with_id)
  have e: "\<exists>r \<in> set (rows (db busy_sink)). id_col r = 2"
    by (simp add: busy_sink_def rows_three id_col_with_id)
  have n: "\<not> (\<exists>r \<in> set (rows (db busy_sink)). id_col r = 7)"
    by (simp add: busy_sink_def rows_three id_col_with_id)
  have i: "map id_col (rows (db (snd (api_email_delete 2
        [OtherInsert (email_values example_mail example_conn 40 41), OtherDelete 1] busy_sink)))) = [3, 4]"
    by code_simp
  from api_email_delete_effect [OF d, of 2 "[]"] e
  have "fst (api_email_delete 2 [] busy_sink) = Response 200 (Text ''Removed'')"
    and "rows (db (snd (api_email_delete 2 [] busy_sink))) =
      filter (\<lambda>r. id_col r \<noteq> 2) (rows (db busy_sink))"
    by simp_all
  moreover from api_email_delete_effect [OF d, of 7 "[]"] n
  have "api_email_delete 7 [] busy_sink = (Response 404 (Text ''Not found''), busy_sink)"
    by simp
  ultimately show ?thesis using d e i by (simp add: busy_sink_def rows_three id_col_with_id)
qed

text \<open>
  C6. For every state of the table and every threshold \<open>k\<close>: when some row has an id
  at most \<open>k\<close>, \<^verbatim>\<open>GET /api/email/purge/k\<close> answers 200 and the table keeps exactly the
  rows with an id above \<open>k\<close>, unchanged and in their order; when no row has an id at
  most \<open>k\<close>, the answer is 404 and nothing is changed. Where others write between the
  handler's select and its delete, the delete removes the rows with an id at most \<open>k\<close>
  from the table as it is then, and nothing else.
\<close>

theorem api_email_purge_effect:
  "if (\<exists>r \<in> set (rows (db s)). id_col r \<le> k)
   then fst (api_email_purge k during s) =
          Response 200 (Text (''Purged records older than '' @ Number_toString k))
      \<and> rows (db (snd (api_email_purge k [] s))) = filter (\<lambda>r. k < id_col r) (rows (db s))
      \<and> seq (db (snd (api_email_purge k [] s))) = seq (db s)
      \<and> rows (db (snd (api_email_purge k during s))) =
          filter (\<lambda>r. k < id_col r) (rows (db (fold interfere during s)))
      \<and> seq (db (snd (api_email_purge k during s))) = seq (db (fold interfere during s))
   else api_email_purge k during s = (Response 404 (Text ''Not found''), s)"
proof -
  have "filter (\<lambda>r. \<not> id_col r \<le> k) rs = filter (\<lambda>r. k < id_col r) rs" for rs :: "row list"
    by (simp add: not_le)
  then show ?thesis by (simp add: api_email_purge_cases db_del_le_def)
qed

theorem api_email_purge_effect_witness:
  "fst (api_email_purge 2 [] busy_sink) = Response 200 (Text ''Purged records older than 2'')
   \<and> map id_col (rows (db (snd (api_email_purge 2 [] busy_sink)))) = [3]
   \<and> map id_col (rows (db (snd (api_email_purge 4
        [OtherInsert (email_values example_mail example_conn 40 41),
         OtherInsert (email_values example_mail example_conn 50 50)] busy_sink)))) = [5]
   \<and> api_email_purge 0 [] busy_sink = (Response 404 (Text ''Not found''), busy_sink)"
proof -
  have e: "\<exists>r \<in> set (rows (db busy_sink)). id_col r \<le> 2"
    by (simp add: busy_sink_def rows_three id_col_with_id)
  have n: "\<not> (\<exists>r \<in> set (rows (db busy_sink)). id_col r \<le> 0)"
    by (simp add: busy_sink_def rows_three id_col_with_id)
  have t: "Number_toString 2 = ''2''"
    by code_simp
  have i: "map id_col (rows (db (snd (api_email_purge 4
        [OtherInsert (email_values example_mail example_conn 40 41),
         OtherInsert (email_values example_mail example_conn 50 50)] busy_sink)))) = [5]"
    by code_simp
  from api_email_purge_effect [of busy_sink 2 "[]"] e
  have "fst (api_email_purge 2 [] busy_sink) =
      Response 200 (Text (''Purged records older than '' @ Number_toString 2))"
    and "rows (db (snd (api_email_purge 2 [] busy_sink))) =
      filter (\<lambda>r. 2 < id_col r) (rows (db busy_sink))"
    by simp_all
  moreover from api_email_purge_effect [of busy_sink 0 "[]"] n
  have "api_email_purge 0 [] busy_sink = (Response 404 (Text ''Not found''), busy_sink)"
    by simp
  ultimately show ?thesis using t i by (simp add: busy_sink_def rows_three id_col_with_id)
qed

section \<open>The handler of the end event\<close>

lemma only_row_after_insert:
  assumes "db_insert v st = Inr (n, st')"
  shows "only_row n (with_id n v) st'" and "db_where_eq n st' = [with_id n v]"
proof -
  from assms have r: "rows st' = rows st @ [with_id n v]" and s: "seq st' = n"
    and m: "max_rowid (rows st) < n" by (auto dest: db_insert_Inr)
  have "\<forall>x \<in> set (rows st). id_col x \<noteq> n"
    using m max_rowid_ge by fastforce
  then have "filter (\<lambda>x. id_col x = n) (rows st) = []" by (simp add: filter_empty_conv)
  with r show "db_where_eq n st' = [with_id n v]" by (simp add: db_where_eq_def id_col_with_id)
  with s show "only_row n (with_id n v) st'" by (simp add: only_row_def)
qed

lemma filter_kept_or_gone:
  assumes "filter P xs = [r] \<or> filter P xs = []"
  shows "filter P (filter Q xs) = [r] \<or> filter P (filter Q xs) = []"
proof -
  have c: "filter P (filter Q xs) = filter Q (filter P xs)" by (induction xs) auto
  from assms show ?thesis
  proof
    assume "filter P xs = [r]"
    then have "filter P (filter Q xs) = filter Q [r]" by (simp only: c)
    then show ?thesis by (cases "Q r") simp_all
  next
    assume "filter P xs = []"
    then have "filter P (filter Q xs) = filter Q []" by (simp only: c)
    then show ?thesis by simp
  qed
qed

lemma only_row_interfere:
  assumes "only_row n r (db s)"
  shows "only_row n r (db (interfere i s))"
proof (cases i)
  case (OtherInsert v)
  show ?thesis
  proof (cases "db_insert v (db s)")
    case (Inl e)
    with OtherInsert assms show ?thesis by simp
  next
    case (Inr p)
    obtain m st' where p: "p = (m, st')" by (cases p)
    with Inr have "seq (db s) < m" "seq st' = m" "rows st' = rows (db s) @ [with_id m v]"
      by (auto dest: db_insert_Inr)
    with assms OtherInsert Inr p show ?thesis
      by (auto simp: only_row_def db_where_eq_def id_col_with_id)
  qed
next
  case (OtherDelete k)
  with assms show ?thesis
    using filter_kept_or_gone [of "\<lambda>x. id_col x = n" "rows (db s)" r "\<lambda>x. \<not> id_col x = k"]
    by (simp add: only_row_def db_where_eq_def db_del_eq_def)
next
  case (OtherPurge k)
  with assms show ?thesis
    using filter_kept_or_gone [of "\<lambda>x. id_col x = n" "rows (db s)" r "\<lambda>x. \<not> id_col x \<le> k"]
    by (simp add: only_row_def db_where_eq_def db_del_le_def)
qed (use assms in simp_all)

lemma only_row_fold:
  "only_row n r (db s) \<Longrightarrow> only_row n r (db (fold interfere is s))"
  by (induction "is" arbitrary: s) (simp_all add: only_row_interfere)

lemma on_end_cases:
  "on_end mail conn t1 t2 d1 d2 s =
     (case db_insert (email_values mail conn t1 t2) (db s) of
        Inl e \<Rightarrow> ([Rejected e], s)
      | Inr (n, st) \<Rightarrow>
          if db_where_eq n (db (fold interfere d1 (s\<lparr>db := st\<rparr>))) = []
          then ([InsertResolved n, SelectResolved [], Rejected TypeError],
                fold interfere d2 (fold interfere d1 (s\<lparr>db := st\<rparr>)))
          else ([InsertResolved n, SelectResolved [with_id n (email_values mail conn t1 t2)],
                 Emitted (read_back n mail conn t1 t2)]
                  @ map (\<lambda>l. ListenerCalled l (read_back n mail conn t1 t2))
                      (listeners (fold interfere d2 (fold interfere d1 (s\<lparr>db := st\<rparr>))))
                  @ [DoneCallback [n]],
                fold interfere d2 (fold interfere d1 (s\<lparr>db := st\<rparr>))))"
proof (cases "db_insert (email_values mail conn t1 t2) (db s)")
  case (Inl e)
  then show ?thesis by (simp add: on_end_def)
next
  case (Inr p)
  obtain n st where p: "p = (n, st)" by (cases p)
  let ?r = "with_id n (email_values mail conn t1 t2)"
  let ?s1 = "fold interfere d1 (s\<lparr>db := st\<rparr>)"
  from Inr p have "only_row n ?r (db (s\<lparr>db := st\<rparr>))"
    using only_row_after_insert(1) by simp
  then have "only_row n ?r (db ?s1)" by (rule only_row_fold)
  then consider "db_where_eq n (db ?s1) = []" | "db_where_eq n (db ?s1) = [?r]"
    by (auto simp: only_row_def)
  then show ?thesis
  proof cases
    case 1
    with Inr p show ?thesis by (simp add: on_end_def Let_def)
  next
    case 2
    with Inr p show ?thesis
      by (simp add: on_end_def Let_def deserialize_inserted emit_email_def comp_def)
  qed
qed

text \<open>
  C2. Whatever other sessions and requests do meanwhile: when the handler calls the
  session's done callback, the insert of the session's record has completed before
  (the record is in the table the insert leaves), the callback is given the key of
  that record, and it is the handler's last step; a handler whose insert fails never
  calls it.
\<close>

theorem done_only_after_insert:
  assumes "DoneCallback record \<in> set (fst (on_end mail conn t1 t2 d1 d2 s))"
  shows "\<exists>n st mid.
      db_insert (email_values mail conn t1 t2) (db s) = Inr (n, st)
    \<and> with_id n (email_values mail conn t1 t2) \<in> set (rows st)
    \<and> record = [n]
    \<and> fst (on_end mail conn t1 t2 d1 d2 s) = InsertResolved n # mid @ [DoneCallback [n]]
    \<and> (\<forall>e \<in> set mid. \<forall>x. e \<noteq> DoneCallback x)"
proof (cases "db_insert (email_values mail conn t1 t2) (db s)")
  case (Inl e)
  with assms show ?thesis by (simp add: on_end_cases)
next
  case (Inr p)
  obtain n st where p: "p = (n, st)" by (cases p)
  let ?r = "with_id n (email_values mail conn t1 t2)"
  let ?s2 = "fold interfere d2 (fold interfere d1 (s\<lparr>db := st\<rparr>))"
  let ?mid = "[SelectResolved [?r], Emitted (read_back n mail conn t1 t2)]
      @ map (\<lambda>l. ListenerCalled l (read_back n mail conn t1 t2)) (listeners ?s2)"
  from Inr p have "rows st = rows (db s) @ [?r]" by (auto dest: db_insert_Inr)
  then have mem: "?r \<in> set (rows st)" by simp
  show ?thesis
  proof (cases "db_where_eq n (db (fold interfere d1 (s\<lparr>db := st\<rparr>))) = []")
    case True
    with assms Inr p show ?thesis by (simp add: on_end_cases)
  next
    case False
    with Inr p have log: "fst (on_end mail conn t1 t2 d1 d2 s) =
        InsertResolved n # ?mid @ [DoneCallback [n]]"
      by (simp add: on_end_cases)
    have clean: "\<forall>e \<in> set ?mid. \<forall>x. e \<noteq> DoneCallback x" by auto
    from assms log have "record = [n]" by auto
    with Inr p mem log clean show ?thesis by blast
  qed
qed

theorem done_only_after_insert_witness:
  "DoneCallback [4] \<in> set (fst (on_end example_mail example_conn 40 41
        [OtherPurge 2, OtherOn 11] [OtherRemoveListener 4] busy_sink))
   \<and> (\<exists>n st mid.
        db_insert (email_values example_mail example_conn 40 41) (db busy_sink) = Inr (n, st)
      \<and> with_id n (email_values example_mail example_conn 40 41) \<in> set (rows st)
      \<and> [4] = [n]
      \<and> fst (on_end example_mail example_conn 40 41
            [OtherPurge 2, OtherOn 11] [OtherRemoveListener 4] busy_sink)
          = InsertResolved n # mid @ [DoneCallback [n]]
      \<and> (\<forall>e \<in> set mid. \<forall>x. e \<noteq> DoneCallback x))
   \<and> fst (on_end example_mail example_conn 40 41 [OtherPurge 4] [] busy_sink) =
        [InsertResolved 4, SelectResolved [], Rejected TypeError]"
proof -
  have m: "DoneCallback [4] \<in> set (fst (on_end example_mail example_conn 40 41
        [OtherPurge 2, OtherOn 11] [OtherRemoveListener 4] busy_sink))"
    by code_simp
  have l: "fst (on_end example_mail example_conn 40 41 [OtherPurge 4] [] busy_sink) =
        [InsertResolved 4, SelectResolved [], Rejected TypeError]"
    by code_simp
  from done_only_after_insert [OF m] m l show ?thesis by blast
qed

text \<open>
  C10. Whatever other sessions and requests do meanwhile: the record the handler
  publishes is the session's row as read back from the table after the insert and
  decoded, which is what \<^verbatim>\<open>GET /api/email/:id\<close> answers for the new id at that moment;
  and the publication, with the calls of all listeners, comes before the done callback.
\<close>

theorem published_record_is_read_back:
  assumes "Emitted item \<in> set (fst (on_end mail conn t1 t2 d1 d2 s))"
  shows "\<exists>n st.
      db_insert (email_values mail conn t1 t2) (db s) = Inr (n, st)
    \<and> item = read_back n mail conn t1 t2
    \<and> api_email_id n (db (fold interfere d1 (s\<lparr>db := st\<rparr>))) =
        Inr (Response 200 (JsonObject item))
    \<and> fst (on_end mail conn t1 t2 d1 d2 s) =
        [InsertResolved n, SelectResolved [with_id n (email_values mail conn t1 t2)],
         Emitted item]
        @ map (\<lambda>l. ListenerCalled l item) (listeners (snd (on_end mail conn t1 t2 d1 d2 s)))
        @ [DoneCallback [n]]"
proof (cases "db_insert (email_values mail conn t1 t2) (db s)")
  case (Inl e)
  with assms show ?thesis by (simp add: on_end_cases)
next
  case (Inr p)
  obtain n st where p: "p = (n, st)" by (cases p)
  let ?r = "with_id n (email_values mail conn t1 t2)"
  let ?s1 = "fold interfere d1 (s\<lparr>db := st\<rparr>)"
  show ?thesis
  proof (cases "db_where_eq n (db ?s1) = []")
    case True
    with assms Inr p show ?thesis by (simp add: on_end_cases)
  next
    case False
    from Inr p have "only_row n ?r (db (s\<lparr>db := st\<rparr>))"
      using only_row_after_insert(1) by simp
    then have "only_row n ?r (db ?s1)" by (rule only_row_fold)
    with False have found: "db_where_eq n (db ?s1) = [?r]" by (auto simp: only_row_def)
    from assms Inr p False have item: "item = read_back n mail conn t1 t2"
      by (auto simp: on_end_cases)
    have "api_email_id n (db ?s1) = Inr (Response 200 (JsonObject item))"
      using found item by (simp add: api_email_id_def deserialize_inserted and_then_def)
    with Inr p False item show ?thesis by (simp add: on_end_cases)
  qed
qed

theorem published_record_is_read_back_witness:
  "Emitted (read_back 4 example_mail example_conn 40 41)
     \<in> set (fst (on_end example_mail example_conn 40 41
        [OtherPurge 2, OtherOn 11] [OtherRemoveListener 4] busy_sink))
   \<and> fst (on_end example_mail example_conn 40 41
        [OtherPurge 2, OtherOn 11] [OtherRemoveListener 4] busy_sink) =
     [InsertResolved 4, SelectResolved [with_id 4 (email_values example_mail example_conn 40 41)],
      Emitted (read_back 4 example_mail example_conn 40 41),
      ListenerCalled 9 (read_back 4 example_mail example_conn 40 41),
      ListenerCalled 11 (read_back 4 example_mail example_conn 40 41),
      DoneCallback [4]]
   \<and> (\<exists>n st.
        db_insert (email_values example_mail example_conn 40 41) (db busy_sink) = Inr (n, st)
      \<and> read_back 4 example_mail example_conn 40 41 = read_back n example_mail example_conn 40 41
      \<and> api_email_id n (db (fold interfere [OtherPurge 2, OtherOn 11] (busy_sink\<lparr>db := st\<rparr>))) =
          Inr (Response 200 (JsonObject (read_back 4 example_mail example_conn 40 41)))
      \<and> fst (on_end example_mail example_conn 40 41
            [OtherPurge 2, OtherOn 11] [OtherRemoveListener 4] busy_sink) =
          [InsertResolved n, SelectResolved [with_id n (email_values example_mail example_conn 40 41)],
           Emitted (read_back 4 example_mail example_conn 40 41)]
          @ map (\<lambda>l. ListenerCalled l (read_back 4 example_mail example_conn 40 41))
              (listeners (snd (on_end example_mail example_conn 40 41
                 [OtherPurge 2, OtherOn 11] [OtherRemoveListener 4] busy_sink)))
          @ [DoneCallback [n]])"
proof -
  have m: "Emitted (read_back 4 example_mail example_conn 40 41)
     \<in> set (fst (on_end example_mail example_conn 40 41
        [OtherPurge 2, OtherOn 11] [OtherRemoveListener 4] busy_sink))"
    by code_simp
  have l: "fst (on_end example_mail example_conn 40 41
        [OtherPurge 2, OtherOn 11] [OtherRemoveListener 4] busy_sink) =
     [InsertResolved 4, SelectResolved [with_id 4 (email_values example_mail example_conn 40 41)],
      Emitted (read_back 4 example_mail example_conn 40 41),
      ListenerCalled 9 (read_back 4 example_mail example_conn 40 41),
      ListenerCalled 11 (read_back 4 example_mail example_conn 40 41),
      DoneCallback [4]]"
    by code_simp
  from published_record_is_read_back [OF m] m l show ?thesis by blast
qed

section \<open>Viewers on the event emitter\<close>














section \<open>Schema creation\<close>

text \<open>
  C5, as amended. \<^verbatim>\<open>createSchema\<close> never rejects: where the table exists it is left as
  it is and the failure is logged; where it does not exist it is created empty; any other
  failure of the creation is logged as well and not passed on, and \<^verbatim>\<open>start\<close> goes on.
  Creating the schema a second time changes nothing.
\<close>

theorem createSchema_never_rejects:
  "createSchema fault (Some st) =
     Inr (Some st, [message (case fault of Some e \<Rightarrow> e | None \<Rightarrow> TableAlreadyExists)])
   \<and> createSchema None None = Inr (Some empty_store, [])
   \<and> createSchema (Some e) None = Inr (None, [message e])
   \<and> (createSchema None d = Inr (d1, infos) \<longrightarrow>
        createSchema None d1 = Inr (d1, [message TableAlreadyExists]))
   \<and> (\<exists>d' infos'. start smtpport httpport fault d = Inr (d', infos'))"
  by (auto simp: createSchema_def createTable_def start_def and_then_def
      split: option.splits sum.splits)

theorem createSchema_never_rejects_witness:
  "createSchema None None = Inr (Some empty_store, [])
   \<and> createSchema None (Some empty_store) = Inr (Some empty_store, [''table emails already exists''])
   \<and> createSchema None (Some three_mails) = Inr (Some three_mails, [''table emails already exists''])
   \<and> createSchema (Some (DatabaseFault ''disk I/O error'')) None = Inr (None, [''disk I/O error''])
   \<and> (\<exists>d' infos'. start 2525 2526 (Some (DatabaseFault ''disk I/O error'')) None = Inr (d', infos'))"
proof -
  have a: "createSchema None None = Inr (Some empty_store, [])"
    by (simp add: createSchema_def createTable_def)
  have m: "message TableAlreadyExists = ''table emails already exists''"
    "message (DatabaseFault ''disk I/O error'') = ''disk I/O error''"
    by (simp_all add: message_def)
  note t1 = createSchema_never_rejects [where fault = None and st = three_mails
      and e = "DatabaseFault ''disk I/O error''" and d = None and ?d1.0 = "Some empty_store"
      and infos = "[]" and smtpport = 2525 and httpport = 2526]
  note t2 = createSchema_never_rejects [where fault = "Some (DatabaseFault ''disk I/O error'')"
      and st = three_mails and e = "DatabaseFault ''disk I/O error''" and d = None
      and ?d1.0 = "Some empty_store" and infos = "[]" and smtpport = 2525 and httpport = 2526]
  from t1 a have b: "createSchema None (Some empty_store) =
      Inr (Some empty_store, [message TableAlreadyExists])" by blast
  from t1 have c: "createSchema None (Some three_mails) =
      Inr (Some three_mails, [message TableAlreadyExists])" by simp
  from t1 have d: "createSchema (Some (DatabaseFault ''disk I/O error'')) None =
      Inr (None, [message (DatabaseFault ''disk I/O error'')])" by blast
  from t2 have s: "\<exists>d' infos'. start 2525 2526 (Some (DatabaseFault ''disk I/O error'')) None =
      Inr (d', infos')" by blast
  from a b c d s show ?thesis unfolding m by (intro conjI)
qed

text \<open>
  The claim as stated fails at a failure that is not about an existing table: it is
  caught by the same \<^verbatim>\<open>catch\<close> and does not reach the caller.
\<close>

theorem createSchema_swallows_other_failure:
  "createTable (Some (DatabaseFault ''disk I/O error'')) None = Inl (DatabaseFault ''disk I/O error'')
   \<and> createSchema (Some (DatabaseFault ''disk I/O error'')) None = Inr (None, [''disk I/O error''])
   \<and> createSchema (Some (DatabaseFault ''disk I/O error'')) None \<noteq> Inl (DatabaseFault ''disk I/O error'')
   \<and> start 2525 2526 (Some (DatabaseFault ''disk I/O error'')) None =
        Inr (None, [''disk I/O error'', ''SMTP server listening on port 2525'',
                    ''HTTP server listening on port 2526''])"
proof -
  have d: "digits 2525 = ''2525''" "digits 2526 = ''2526''" by code_simp+
  show ?thesis
    by (simp add: createSchema_def createTable_def message_def start_def and_then_def d)
qed

end
